theory Spec2Isabelle
  imports Complex_Main "HOL-Library.Word" "HOL-Library.Log_Nat"
begin

section \<open>Health sensor data analysis: the data model\<close>

text \<open>
  The script \<^verbatim>\<open>analyze_health_data.py\<close> loads a CSV file into a NumPy structured array,
  computes three means and three threshold counts, renders a text report and writes it.
  The dtype of \<^verbatim>\<open>load_data\<close> fixes the schema: three \<^verbatim>\<open>U\<close> (string) fields, four \<^verbatim>\<open>i4\<close>
  fields (32-bit signed integers) and one \<^verbatim>\<open>f4\<close> field.
\<close>

text \<open>
  A floating-point value: a finite value (its exact rational value), an infinity or
  not-a-number. The means computed here are never a negative zero, so the sign of zero is
  not tracked.
\<close>

datatype np_float = Finite rat | PInf | NInf | NaN

record reading =
  patient_id :: string
  timestamp :: string
  heart_rate :: "32 word"
  blood_pressure_systolic :: "32 word"
  blood_pressure_diastolic :: "32 word"
  temperature :: np_float
  glucose_level :: "32 word"
  sensor_id :: string

text \<open>
  The array \<^verbatim>\<open>np.genfromtxt\<close> returns is one-dimensional, or zero-dimensional when the file
  holds exactly one data row (the result is squeezed).
\<close>

datatype ndarray = Array0 reading | Array1 "reading list"

datatype py_error = FileNotFoundError | ValueError | TypeError | KeyError | OSError

text \<open>\<^verbatim>\<open>data['field']\<close>: the elements of one column, as signed integers.\<close>

definition column :: "(reading \<Rightarrow> 32 word) \<Rightarrow> ndarray \<Rightarrow> int list" where
  "column f data = (case data of Array0 r \<Rightarrow> [sint (f r)] | Array1 rs \<Rightarrow> map (\<lambda>r. sint (f r)) rs)"

text \<open>\<^verbatim>\<open>len(data)\<close>: a zero-dimensional array has no length.\<close>

definition np_len :: "ndarray \<Rightarrow> py_error + int" where
  "np_len data = (case data of Array0 r \<Rightarrow> Inl TypeError | Array1 rs \<Rightarrow> Inr (int (length rs)))"

text \<open>The rows of a dataset, whatever its dimension.\<close>

definition rows :: "ndarray \<Rightarrow> reading list" where
  "rows data = (case data of Array0 r \<Rightarrow> [r] | Array1 rs \<Rightarrow> rs)"

section \<open>Floating-point arithmetic and formatting\<close>

text \<open>
  \<^verbatim>\<open>mean()\<close> of an integer column accumulates in binary64 and divides by the element
  count; the f-string \<^verbatim>\<open>{x:.1f}\<close> renders the binary64 value with one fractional digit.
  Both are modelled exactly on rationals: every operation rounds its exact result to the
  nearest binary64 value, ties to the even significand.
\<close>

text \<open>The integer nearest to a rational, a tie going to the even neighbour.\<close>

definition round_half_even :: "rat \<Rightarrow> int" where
  "round_half_even q =
     (let f = \<lfloor>q\<rfloor>; r = q - of_int f
      in if r < 1 / 2 then f else if 1 / 2 < r then f + 1 else if even f then f else f + 1)"

text \<open>For \<open>q > 0\<close>, the exponent \<open>e\<close> with \<open>2 powi e \<le> q < 2 powi (e + 1)\<close>.\<close>

definition ilog2 :: "rat \<Rightarrow> int" where
  "ilog2 q =
     (let e = bitlen (fst (quotient_of q)) - bitlen (snd (quotient_of q))
      in if 2 powi e \<le> q then e else e - 1)"

text \<open>
  Rounding a positive rational to binary64: 53 significant bits, the exponent of the last
  place never below \<open>-1074\<close> (subnormal numbers), overflow to infinity at \<open>2 powi 1024\<close>.
\<close>

definition round_f64_pos :: "rat \<Rightarrow> np_float" where
  "round_f64_pos q =
     (let p = max (ilog2 q - 52) (- 1074);
          v = of_int (round_half_even (q / 2 powi p)) * 2 powi p
      in if v < 2 powi 1024 then Finite v else PInf)"

definition f64_neg :: "np_float \<Rightarrow> np_float" where
  "f64_neg x = (case x of Finite v \<Rightarrow> Finite (- v) | PInf \<Rightarrow> NInf | NInf \<Rightarrow> PInf | NaN \<Rightarrow> NaN)"

definition round_f64 :: "rat \<Rightarrow> np_float" where
  "round_f64 q =
     (if q = 0 then Finite 0
      else if 0 < q then round_f64_pos q
      else f64_neg (round_f64_pos (- q)))"

fun f64_add :: "np_float \<Rightarrow> np_float \<Rightarrow> np_float" where
  "f64_add (Finite a) (Finite b) = round_f64 (a + b)"
| "f64_add NaN y = NaN"
| "f64_add x NaN = NaN"
| "f64_add PInf NInf = NaN"
| "f64_add NInf PInf = NaN"
| "f64_add PInf y = PInf"
| "f64_add NInf y = NInf"
| "f64_add x PInf = PInf"
| "f64_add x NInf = NInf"

text \<open>
  Division of NumPy scalars: a zero divisor gives not-a-number for a zero dividend and an
  infinity otherwise (with a warning, no exception). The divisor here is a count, so a
  zero divisor is the positive zero.
\<close>

fun f64_div :: "np_float \<Rightarrow> np_float \<Rightarrow> np_float" where
  "f64_div (Finite a) (Finite b) =
     (if b = 0 then (if a = 0 then NaN else if 0 < a then PInf else NInf)
      else round_f64 (a / b))"
| "f64_div NaN y = NaN"
| "f64_div x NaN = NaN"
| "f64_div (Finite a) y = Finite 0"
| "f64_div PInf (Finite b) = (if b < 0 then NInf else PInf)"
| "f64_div NInf (Finite b) = (if b < 0 then PInf else NInf)"
| "f64_div x y = NaN"

text \<open>
  \<^verbatim>\<open>sum\<close> with \<^verbatim>\<open>dtype=float64\<close>: each element is cast, then accumulated. NumPy adds
  the elements in blocks, pairwise; the fold below adds them from left to right. The two
  agree whenever every partial sum is exact in binary64, as it is while the absolute
  values sum to at most \<open>2\<^sup>5\<^sup>3\<close>. Beyond that the fold is not NumPy's sum.
\<close>

definition np_sum :: "int list \<Rightarrow> np_float" where
  "np_sum xs = foldl f64_add (Finite 0) (map (\<lambda>x. round_f64 (of_int x)) xs)"

text \<open>\<^verbatim>\<open>mean()\<close>: the sum divided by the number of elements.\<close>

definition np_mean :: "int list \<Rightarrow> np_float" where
  "np_mean xs = f64_div (np_sum xs) (round_f64 (of_nat (length xs)))"

section \<open>Rendering numbers\<close>

definition digit_char :: "nat \<Rightarrow> char" where
  "digit_char d = char_of (48 + d)"

fun str_nat :: "nat \<Rightarrow> string" where
  "str_nat n = (if n < 10 then [digit_char n] else str_nat (n div 10) @ [digit_char (n mod 10)])"

declare str_nat.simps [simp del]

text \<open>\<^verbatim>\<open>str\<close> of an integer, as an f-string field without a format renders it.\<close>

definition str_int :: "int \<Rightarrow> string" where
  "str_int i = (if i < 0 then CHR ''-'' # str_nat (nat (- i)) else str_nat (nat i))"

text \<open>
  \<^verbatim>\<open>{x:.1f}\<close>: the sign of the value, then the decimal digits of the magnitude rounded to
  a whole number of tenths, a tie going to the even digit.
\<close>

definition format_1f :: "np_float \<Rightarrow> string" where
  "format_1f x =
     (case x of
        NaN \<Rightarrow> ''nan''
      | PInf \<Rightarrow> ''inf''
      | NInf \<Rightarrow> ''-inf''
      | Finite v \<Rightarrow>
          (let k = nat (round_half_even (\<bar>v\<bar> * 10))
           in (if v < 0 then ''-'' else []) @ str_nat (k div 10) @ ''.'' @ str_nat (k mod 10)))"

section \<open>The aggregator\<close>

definition calculate_statistics :: "ndarray \<Rightarrow> (string \<rightharpoonup> string)" where
  "calculate_statistics data =
     (let avg_heart_rate = np_mean (column heart_rate data);
          avg_systolic_bp = np_mean (column blood_pressure_systolic data);
          avg_glucose = np_mean (column glucose_level data)
      in [''avg_heart_rate'' \<mapsto> format_1f avg_heart_rate,
          ''avg_systolic_bp'' \<mapsto> format_1f avg_systolic_bp,
          ''avg_glucose'' \<mapsto> format_1f avg_glucose])"

section \<open>The classifier\<close>

text \<open>\<^verbatim>\<open>(column > t).sum()\<close>: the comparison gives one boolean per element, the sum counts the true ones.\<close>

definition np_greater :: "int list \<Rightarrow> int \<Rightarrow> bool list" where
  "np_greater xs t = map (\<lambda>x. t < x) xs"

definition np_sum_bool :: "bool list \<Rightarrow> int" where
  "np_sum_bool bs = sum_list (map (\<lambda>b. if b then 1 else 0) bs)"

definition find_abnormal_readings :: "ndarray \<Rightarrow> (string \<rightharpoonup> int)" where
  "find_abnormal_readings data =
     (let high_hr_count = np_sum_bool (np_greater (column heart_rate data) 90);
          high_bp_count = np_sum_bool (np_greater (column blood_pressure_systolic data) 130);
          high_glucose_count = np_sum_bool (np_greater (column glucose_level data) 110)
      in [''high_heart_rate'' \<mapsto> high_hr_count,
          ''high_blood_pressure'' \<mapsto> high_bp_count,
          ''high_glucose'' \<mapsto> high_glucose_count])"

text \<open>The number of rows whose field exceeds a threshold, counted as a set of row indices.\<close>

definition rows_above :: "(reading \<Rightarrow> 32 word) \<Rightarrow> int \<Rightarrow> ndarray \<Rightarrow> nat" where
  "rows_above f t data = card {i. i < length (rows data) \<and> t < sint (f (rows data ! i))}"

section \<open>The reporter\<close>

definition newline :: char where
  "newline = CHR 0x0A"

text \<open>One line of text with its line terminator.\<close>

definition line :: "string \<Rightarrow> string" where
  "line s = s @ [newline]"

text \<open>\<^verbatim>\<open>d[k]\<close>: a missing key raises.\<close>

definition getitem :: "(string \<rightharpoonup> 'v) \<Rightarrow> string \<Rightarrow> py_error + 'v" where
  "getitem d k = (case d k of None \<Rightarrow> Inl KeyError | Some v \<Rightarrow> Inr v)"

text \<open>
  The f-string of \<^verbatim>\<open>generate_report\<close>. Its fields are evaluated left to right; the text
  after the last line terminator is the single space that precedes the closing quotes.
\<close>

definition generate_report ::
  "(string \<rightharpoonup> string) \<Rightarrow> (string \<rightharpoonup> int) \<Rightarrow> int \<Rightarrow> py_error + string" where
  "generate_report stats abnormal total_readings =
     (case getitem stats ''avg_heart_rate'' of Inl e \<Rightarrow> Inl e | Inr hr \<Rightarrow>
      case getitem stats ''avg_systolic_bp'' of Inl e \<Rightarrow> Inl e | Inr bp \<Rightarrow>
      case getitem stats ''avg_glucose'' of Inl e \<Rightarrow> Inl e | Inr gl \<Rightarrow>
      case getitem abnormal ''high_heart_rate'' of Inl e \<Rightarrow> Inl e | Inr n_hr \<Rightarrow>
      case getitem abnormal ''high_blood_pressure'' of Inl e \<Rightarrow> Inl e | Inr n_bp \<Rightarrow>
      case getitem abnormal ''high_glucose'' of Inl e \<Rightarrow> Inl e | Inr n_gl \<Rightarrow>
      Inr (line ''Health Sensor Data Analysis Report''
         @ line ''==================================''
         @ line []
         @ line ''Dataset Summary:''
         @ line (''- Total readings: '' @ str_int total_readings)
         @ line []
         @ line ''Average Measurements:''
         @ line (''- Heart Rate: '' @ hr @ '' bpm'')
         @ line (''- Systolic Blood Pressure: '' @ bp @ '' mmHg'')
         @ line (''- Glucose Level: '' @ gl @ '' mg/dL'')
         @ line []
         @ line ''Abnormal Readings:''
         @ line (''- High Heart Rate (>90 bpm): '' @ str_int n_hr @ '' readings'')
         @ line (''- High Systolic Blood Pressure (>130 mmHg): '' @ str_int n_bp @ '' readings'')
         @ line (''- High Glucose Level (>110 mg/dL): '' @ str_int n_gl @ '' readings'')
         @ line []
         @ '' ''))"

section \<open>Files, standard output and the pipeline\<close>

text \<open>
  What the script can touch: the files by path, which paths can be opened for writing
  (the directory exists and permits it), and the lines printed so far on standard
  output. Standard error, where NumPy writes its warnings, is not modelled.
\<close>

record world =
  files :: "string \<rightharpoonup> string"
  writable :: "string \<Rightarrow> bool"
  stdout :: "string list"

text \<open>
  \<^verbatim>\<open>open(filename, 'w')\<close> creates or truncates the file; \<^verbatim>\<open>write\<close> stores the text.
  Where the file cannot be opened, \<open>OSError\<close> stands for the subclass of it that
  \<^verbatim>\<open>open\<close> raises (\<^verbatim>\<open>FileNotFoundError\<close> for a missing directory, \<^verbatim>\<open>PermissionError\<close>
  for a refused one).
\<close>

definition save_report :: "string \<Rightarrow> string \<Rightarrow> world \<Rightarrow> (py_error + unit) \<times> world" where
  "save_report report filename w =
     (if writable w filename
      then (Inr (), w\<lparr>files := (files w)(filename \<mapsto> report)\<rparr>)
      else (Inl OSError, w))"

definition print :: "string \<Rightarrow> world \<Rightarrow> (py_error + unit) \<times> world" where
  "print s w = (Inr (), w\<lparr>stdout := stdout w @ [s]\<rparr>)"

text \<open>
  \<^verbatim>\<open>np.genfromtxt\<close> is library code: the parser of the file's text into an array is a
  parameter, \<open>genfromtxt\<close>. A file that is absent cannot be opened.
\<close>

definition load_data :: "(string \<Rightarrow> py_error + ndarray) \<Rightarrow> string \<Rightarrow> world \<Rightarrow> py_error + ndarray" where
  "load_data genfromtxt filename w =
     (case files w filename of None \<Rightarrow> Inl FileNotFoundError | Some text \<Rightarrow> genfromtxt text)"

definition input_path :: string where
  "input_path = ''health_data.csv''"

definition output_path :: string where
  "output_path = ''output/analysis_report.txt''"

definition confirmation :: string where
  "confirmation = ''analysis report successfully saved to '' @ [CHR 0x27] @ ''output/analysis_report.txt'' @ [CHR 0x27]"

text \<open>\<^verbatim>\<open>main\<close>: an exception at any step ends the run there.\<close>

definition main :: "(string \<Rightarrow> py_error + ndarray) \<Rightarrow> world \<Rightarrow> (py_error + unit) \<times> world" where
  "main genfromtxt w =
     (case load_data genfromtxt input_path w of Inl e \<Rightarrow> (Inl e, w) | Inr data \<Rightarrow>
      let stats = calculate_statistics data;
          abnormal = find_abnormal_readings data
      in case np_len data of Inl e \<Rightarrow> (Inl e, w) | Inr total_readings \<Rightarrow>
         case generate_report stats abnormal total_readings of Inl e \<Rightarrow> (Inl e, w) | Inr report \<Rightarrow>
         case save_report report output_path w of
           (Inl e, w') \<Rightarrow> (Inl e, w')
         | (Inr u, w') \<Rightarrow> print confirmation w')"

section \<open>Reference definitions\<close>

text \<open>The exact arithmetic mean of a column.\<close>

definition exact_mean :: "int list \<Rightarrow> rat" where
  "exact_mean xs = of_int (sum_list xs) / of_nat (length xs)"

text \<open>
  A decimal with one fractional digit: an optional minus sign, the digits of the whole
  part, a point and one digit. \<open>k\<close> is the magnitude in tenths.
\<close>

definition decimal1 :: "bool \<Rightarrow> nat \<Rightarrow> string" where
  "decimal1 neg k = (if neg then ''-'' else []) @ str_nat (k div 10) @ ''.'' @ [digit_char (k mod 10)]"

text \<open>
  A string renders a rational to one decimal place: it is the decimal of a whole number
  of tenths that lies within half a tenth of the rational (an exact tie may go either
  way), with the sign of the rational.
\<close>

definition rounds_to_one_decimal :: "string \<Rightarrow> rat \<Rightarrow> bool" where
  "rounds_to_one_decimal s q = (\<exists>k. s = decimal1 (q < 0) k \<and> \<bar>of_nat k / 10 - \<bar>q\<bar>\<bar> \<le> 1 / 20)"

text \<open>
  A string renders a floating-point value to one decimal place, half to even: the number
  of tenths is nearest to the value itself, and even when the value lies exactly halfway.
\<close>

definition half_even_rendering :: "np_float \<Rightarrow> string \<Rightarrow> bool" where
  "half_even_rendering x s =
     (case x of
        Finite v \<Rightarrow>
          (\<exists>k. s = decimal1 (v < 0) k \<and> \<bar>of_nat k - 10 * \<bar>v\<bar>\<bar> \<le> 1 / 2
             \<and> (\<bar>of_nat k - 10 * \<bar>v\<bar>\<bar> = 1 / 2 \<longrightarrow> even k))
      | PInf \<Rightarrow> s = ''inf''
      | NInf \<Rightarrow> s = ''-inf''
      | NaN \<Rightarrow> s = ''nan'')"

text \<open>Rounding half away from zero, for comparison.\<close>

definition round_half_away :: "rat \<Rightarrow> int" where
  "round_half_away q = (if 0 \<le> q then \<lfloor>q + 1 / 2\<rfloor> else - \<lfloor>- q + 1 / 2\<rfloor>)"

text \<open>The sum of the absolute values of a column.\<close>

definition abs_sum :: "int list \<Rightarrow> int" where
  "abs_sum xs = sum_list (map abs xs)"

text \<open>
  The template of the output file as the specification prints it, each line terminated,
  followed by the trailing blank line.
\<close>

definition report_template :: "int \<Rightarrow> string \<Rightarrow> string \<Rightarrow> string \<Rightarrow> int \<Rightarrow> int \<Rightarrow> int \<Rightarrow> string" where
  "report_template total_readings hr bp gl n_hr n_bp n_gl =
     concat (map line
       [''Health Sensor Data Analysis Report'',
        ''=================================='',
        [],
        ''Dataset Summary:'',
        ''- Total readings: '' @ str_int total_readings,
        [],
        ''Average Measurements:'',
        ''- Heart Rate: '' @ hr @ '' bpm'',
        ''- Systolic Blood Pressure: '' @ bp @ '' mmHg'',
        ''- Glucose Level: '' @ gl @ '' mg/dL'',
        [],
        ''Abnormal Readings:'',
        ''- High Heart Rate (>90 bpm): '' @ str_int n_hr @ '' readings'',
        ''- High Systolic Blood Pressure (>130 mmHg): '' @ str_int n_bp @ '' readings'',
        ''- High Glucose Level (>110 mg/dL): '' @ str_int n_gl @ '' readings''])
     @ line []"

text \<open>
  The report of a dataset: the template filled with the row count, the three formatted
  means and the three counts, then the single space the f-string ends with.
\<close>

definition expected_report :: "ndarray \<Rightarrow> string" where
  "expected_report data =
     report_template (int (length (rows data)))
       (format_1f (np_mean (column heart_rate data)))
       (format_1f (np_mean (column blood_pressure_systolic data)))
       (format_1f (np_mean (column glucose_level data)))
       (int (rows_above heart_rate 90 data))
       (int (rows_above blood_pressure_systolic 130 data))
       (int (rows_above glucose_level 110 data))
     @ '' ''"

text \<open>Reading a report back: the lines of a text, and the decimal number on a line.\<close>

fun split_lines :: "string \<Rightarrow> string list" where
  "split_lines [] = [[]]"
| "split_lines (c # cs) =
     (if c = newline then [] # split_lines cs
      else (case split_lines cs of l # ls \<Rightarrow> (c # l) # ls | [] \<Rightarrow> [[c]]))"

definition is_digit :: "char \<Rightarrow> bool" where
  "is_digit c = (48 \<le> (of_char c :: nat) \<and> (of_char c :: nat) \<le> 57)"

definition parse_nat :: "string \<Rightarrow> nat option" where
  "parse_nat s =
     (if s \<noteq> [] \<and> list_all is_digit s
      then Some (foldl (\<lambda>acc c. 10 * acc + (of_char c - 48)) 0 s)
      else None)"

text \<open>
  The integer on the first line that starts with \<^verbatim>\<open>- Total readings: \<close>.
\<close>

definition parse_total_readings :: "string \<Rightarrow> int option" where
  "parse_total_readings report =
     (let label = ''- Total readings: ''
      in case find (\<lambda>l. take (length label) l = label) (split_lines report) of
           None \<Rightarrow> None
         | Some l \<Rightarrow> map_option int (parse_nat (drop (length label) l)))"

section \<open>Sample data\<close>

definition sample_row :: "32 word \<Rightarrow> 32 word \<Rightarrow> 32 word \<Rightarrow> reading" where
  "sample_row hr bp gl =
     \<lparr>patient_id = ''P001'', timestamp = ''2024-01-15 08:00'', heart_rate = hr,
      blood_pressure_systolic = bp, blood_pressure_diastolic = 85, temperature = Finite (73 / 2),
      glucose_level = gl, sensor_id = ''S1''\<rparr>"

definition csv_header :: string where
  "csv_header = ''patient_id,timestamp,heart_rate,blood_pressure_systolic,blood_pressure_diastolic,temperature,glucose_level,sensor_id''"

definition header_only_csv :: string where
  "header_only_csv = line csv_header"

definition single_row_csv :: string where
  "single_row_csv = line csv_header @ line ''P001,2024-01-15 08:00,80,130,85,36.5,110,S1''"

definition sample_csv :: string where
  "sample_csv = line csv_header
     @ line ''P001,2024-01-15 08:00,80,130,85,36.5,110,S1''
     @ line ''P001,2024-01-15 08:00,100,120,85,36.5,100,S1''"

text \<open>
  A dataset of 699059 rows whose heart rates are 2147483608 (34953 times) and 2147483609
  (664106 times): the values fit 32 bits and their sum is below \<open>2\<^sup>5\<^sup>3\<close>, so binary64 adds
  them exactly in any order.
\<close>

definition extreme_data :: ndarray where
  "extreme_data =
     Array1 (replicate 34953 (sample_row 2147483608 120 100)
           @ replicate 664106 (sample_row 2147483609 120 100))"

text \<open>A world that holds the input file and lets the output file be written.\<close>

definition sample_world :: "string \<Rightarrow> world" where
  "sample_world contents =
     \<lparr>files = [input_path \<mapsto> contents], writable = (\<lambda>p. p = output_path), stdout = []\<rparr>"

section \<open>Properties of the classifier\<close>

lemma column_rows: "column f data = map (\<lambda>r. sint (f r)) (rows data)"
  by (simp add: column_def rows_def split: ndarray.split)

lemma np_sum_bool_filter: "np_sum_bool (map P xs) = int (length (filter P xs))"
  by (induction xs) (simp_all add: np_sum_bool_def)

lemma length_filter_card: "length (filter P xs) = card {i. i < length xs \<and> P (xs ! i)}"
  by (rule length_filter_conv_card)

lemma count_above: "np_sum_bool (np_greater (column f data) t) = int (rows_above f t data)"
proof -
  have "np_greater (column f data) t = map (\<lambda>r. t < sint (f r)) (rows data)"
    by (simp add: np_greater_def column_rows comp_def)
  then show ?thesis
    by (simp add: np_sum_bool_filter length_filter_card rows_above_def)
qed

lemma count_skip:
  "\<not> t < sint (f r) \<Longrightarrow>
   np_sum_bool (np_greater (column f (Array1 (pre @ r # post))) t) =
   np_sum_bool (np_greater (column f (Array1 (pre @ post))) t)"
  by (simp add: np_greater_def column_def np_sum_bool_def)

lemma count_single:
  "\<not> t < sint (f r) \<Longrightarrow> np_sum_bool (np_greater (column f (Array0 r)) t) = 0"
  "\<not> t < sint (f r) \<Longrightarrow> np_sum_bool (np_greater (column f (Array1 [r])) t) = 0"
  by (simp_all add: np_greater_def column_def np_sum_bool_def)

text \<open>
  Claim C2. For every dataset, \<^verbatim>\<open>find_abnormal_readings\<close> returns three independent counts:
  the number of rows with heart rate above 90, with systolic pressure above 130 and with
  glucose above 110. The comparisons are strict: a row whose value equals the threshold
  changes no count, and a single row with systolic pressure 130 gives the count 0, for a
  zero-dimensional and for a one-dimensional array.
\<close>

theorem find_abnormal_readings_strict:
  "find_abnormal_readings data =
     [''high_heart_rate'' \<mapsto> int (rows_above heart_rate 90 data),
      ''high_blood_pressure'' \<mapsto> int (rows_above blood_pressure_systolic 130 data),
      ''high_glucose'' \<mapsto> int (rows_above glucose_level 110 data)]
   \<and> (\<forall>r pre post. sint (heart_rate r) = 90 \<longrightarrow>
         find_abnormal_readings (Array1 (pre @ r # post)) ''high_heart_rate'' =
         find_abnormal_readings (Array1 (pre @ post)) ''high_heart_rate'')
   \<and> (\<forall>r pre post. sint (blood_pressure_systolic r) = 130 \<longrightarrow>
         find_abnormal_readings (Array1 (pre @ r # post)) ''high_blood_pressure'' =
         find_abnormal_readings (Array1 (pre @ post)) ''high_blood_pressure'')
   \<and> (\<forall>r pre post. sint (glucose_level r) = 110 \<longrightarrow>
         find_abnormal_readings (Array1 (pre @ r # post)) ''high_glucose'' =
         find_abnormal_readings (Array1 (pre @ post)) ''high_glucose'')
   \<and> (\<forall>r. sint (blood_pressure_systolic r) = 130 \<longrightarrow>
         find_abnormal_readings (Array0 r) ''high_blood_pressure'' = Some 0
         \<and> find_abnormal_readings (Array1 [r]) ''high_blood_pressure'' = Some 0)"
proof (intro conjI allI impI)
  show "find_abnormal_readings data =
     [''high_heart_rate'' \<mapsto> int (rows_above heart_rate 90 data),
      ''high_blood_pressure'' \<mapsto> int (rows_above blood_pressure_systolic 130 data),
      ''high_glucose'' \<mapsto> int (rows_above glucose_level 110 data)]"
    by (simp add: find_abnormal_readings_def count_above)
next
  fix r :: reading and pre post assume "sint (heart_rate r) = 90"
  then have "\<not> 90 < sint (heart_rate r)" by simp
  then show "find_abnormal_readings (Array1 (pre @ r # post)) ''high_heart_rate'' =
         find_abnormal_readings (Array1 (pre @ post)) ''high_heart_rate''"
    by (simp add: find_abnormal_readings_def count_skip)
next
  fix r :: reading and pre post assume "sint (blood_pressure_systolic r) = 130"
  then have "\<not> 130 < sint (blood_pressure_systolic r)" by simp
  then show "find_abnormal_readings (Array1 (pre @ r # post)) ''high_blood_pressure'' =
         find_abnormal_readings (Array1 (pre @ post)) ''high_blood_pressure''"
    by (simp add: find_abnormal_readings_def count_skip)
next
  fix r :: reading and pre post assume "sint (glucose_level r) = 110"
  then have "\<not> 110 < sint (glucose_level r)" by simp
  then show "find_abnormal_readings (Array1 (pre @ r # post)) ''high_glucose'' =
         find_abnormal_readings (Array1 (pre @ post)) ''high_glucose''"
    by (simp add: find_abnormal_readings_def count_skip)
next
  fix r :: reading assume "sint (blood_pressure_systolic r) = 130"
  then have *: "\<not> 130 < sint (blood_pressure_systolic r)" by simp
  show "find_abnormal_readings (Array0 r) ''high_blood_pressure'' = Some 0"
    using * by (simp add: find_abnormal_readings_def count_single)
  show "find_abnormal_readings (Array1 [r]) ''high_blood_pressure'' = Some 0"
    using * by (simp add: find_abnormal_readings_def count_single)
qed

theorem find_abnormal_readings_strict_witness:
  "sint (blood_pressure_systolic (sample_row 95 130 110)) = 130
   \<and> sint (heart_rate (sample_row 90 130 110)) = 90
   \<and> sint (glucose_level (sample_row 90 130 110)) = 110
   \<and> find_abnormal_readings (Array0 (sample_row 95 130 110)) ''high_blood_pressure'' = Some 0
   \<and> find_abnormal_readings (Array1 [sample_row 95 130 110]) ''high_blood_pressure'' = Some 0
   \<and> find_abnormal_readings (Array1 [sample_row 95 131 111, sample_row 90 130 110]) =
       find_abnormal_readings (Array1 [sample_row 95 131 111])"
proof -
  let ?r = "sample_row 90 130 110" and ?d = "[sample_row 95 131 111]"
  note t = find_abnormal_readings_strict[of "Array1 [sample_row 95 130 110]"]
  have h: "sint (blood_pressure_systolic (sample_row 95 130 110)) = 130"
    "sint (heart_rate ?r) = 90" "sint (glucose_level ?r) = 110" "sint (blood_pressure_systolic ?r) = 130"
    by (simp_all add: sample_row_def)
  have a: "find_abnormal_readings (Array0 (sample_row 95 130 110)) ''high_blood_pressure'' = Some 0"
    "find_abnormal_readings (Array1 [sample_row 95 130 110]) ''high_blood_pressure'' = Some 0"
    using t h(1) by blast+
  have b: "find_abnormal_readings (Array1 (?d @ ?r # [])) k = find_abnormal_readings (Array1 (?d @ [])) k" for k
  proof -
    have "k \<in> {''high_heart_rate'', ''high_blood_pressure'', ''high_glucose''} \<or>
          k \<notin> {''high_heart_rate'', ''high_blood_pressure'', ''high_glucose''}" by blast
    then show ?thesis
    proof
      assume "k \<in> {''high_heart_rate'', ''high_blood_pressure'', ''high_glucose''}"
      then show ?thesis using t h(2,3,4) by blast
    next
      assume "k \<notin> {''high_heart_rate'', ''high_blood_pressure'', ''high_glucose''}"
      then show ?thesis by (simp add: find_abnormal_readings_def)
    qed
  qed
  from b have "find_abnormal_readings (Array1 [sample_row 95 131 111, sample_row 90 130 110]) =
       find_abnormal_readings (Array1 [sample_row 95 131 111])" by (intro ext) simp
  with h a show ?thesis by simp
qed

section \<open>Properties of the reporter\<close>

lemma getitem_Some: "d k = Some v \<Longrightarrow> getitem d k = Inr v"
  by (simp add: getitem_def)

lemma generate_report_Inr:
  assumes "stats ''avg_heart_rate'' = Some hr" "stats ''avg_systolic_bp'' = Some bp"
    "stats ''avg_glucose'' = Some gl" "abnormal ''high_heart_rate'' = Some n_hr"
    "abnormal ''high_blood_pressure'' = Some n_bp" "abnormal ''high_glucose'' = Some n_gl"
  shows "generate_report stats abnormal n = Inr (report_template n hr bp gl n_hr n_bp n_gl @ '' '')"
  using assms by (simp add: generate_report_def getitem_Some report_template_def)

lemma str_nat_nonempty: "str_nat n \<noteq> []"
  by (subst str_nat.simps) simp

lemma is_digit_digit_char: "d < 10 \<Longrightarrow> is_digit (digit_char d)"
  by (simp add: is_digit_def digit_char_def)

lemma digit_char_value: "d < 10 \<Longrightarrow> (of_char (digit_char d) :: nat) - 48 = d"
  by (simp add: digit_char_def)

lemma digit_char_not_newline: "d < 10 \<Longrightarrow> digit_char d \<noteq> newline"
proof
  assume "d < 10" and "digit_char d = newline"
  then have "(of_char (digit_char d) :: nat) = of_char newline" by simp
  with \<open>d < 10\<close> show False by (simp add: digit_char_def newline_def)
qed

lemma str_nat_digits: "list_all is_digit (str_nat n)"
proof (induction n rule: str_nat.induct)
  case (1 n)
  show ?case
  proof (cases "n < 10")
    case True
    then show ?thesis by (subst str_nat.simps) (simp add: is_digit_digit_char)
  next
    case False
    with 1 show ?thesis by (subst str_nat.simps) (simp add: is_digit_digit_char)
  qed
qed

lemma str_nat_no_newline: "newline \<notin> set (str_nat n)"
proof (induction n rule: str_nat.induct)
  case (1 n)
  show ?case
  proof (cases "n < 10")
    case True
    then show ?thesis
      using digit_char_not_newline[of n] by (subst str_nat.simps) auto
  next
    case False
    with 1 show ?thesis
      using digit_char_not_newline[of "n mod 10"] by (subst str_nat.simps) auto
  qed
qed

lemma str_nat_value: "foldl (\<lambda>acc c. 10 * acc + (of_char c - 48)) 0 (str_nat n) = n"
proof (induction n rule: str_nat.induct)
  case (1 n)
  show ?case
  proof (cases "n < 10")
    case True
    then show ?thesis by (subst str_nat.simps) (simp add: digit_char_value)
  next
    case False
    with 1 show ?thesis by (subst str_nat.simps) (simp add: digit_char_value)
  qed
qed

lemma parse_nat_str_nat: "parse_nat (str_nat n) = Some n"
  by (simp add: parse_nat_def str_nat_nonempty str_nat_digits str_nat_value)

lemma split_lines_line:
  "newline \<notin> set s \<Longrightarrow> split_lines (line s @ t) = s # split_lines t"
  by (induction s) (auto simp add: line_def split: list.splits)

lemma split_lines_nonempty: "split_lines t \<noteq> []"
  by (induction t) (auto split: list.splits)


lemma generate_report_head:
  "generate_report stats abnormal n = Inr report \<Longrightarrow>
   \<exists>rest. report =
     line ''Health Sensor Data Analysis Report'' @ line ''=================================='' @
     line [] @ line ''Dataset Summary:'' @ line (''- Total readings: '' @ str_int n) @ rest"
  by (auto simp add: generate_report_def split: sum.splits)

lemma parse_total_readings_head:
  assumes "0 \<le> n"
  shows "parse_total_readings
     (line ''Health Sensor Data Analysis Report'' @ line ''=================================='' @
      line [] @ line ''Dataset Summary:'' @ line (''- Total readings: '' @ str_int n) @ rest) = Some n"
proof -
  have nl: "newline \<notin> set (''- Total readings: '' @ str_int n)"
    using assms str_nat_no_newline[of "nat n"] by (simp add: str_int_def newline_def)
  have "split_lines
     (line ''Health Sensor Data Analysis Report'' @ line ''=================================='' @
      line [] @ line ''Dataset Summary:'' @ line (''- Total readings: '' @ str_int n) @ rest) =
      ''Health Sensor Data Analysis Report'' # ''=================================='' # [] #
      ''Dataset Summary:'' # (''- Total readings: '' @ str_int n) # split_lines rest"
    using nl by (simp add: split_lines_line newline_def)
  then show ?thesis
    using assms by (simp add: parse_total_readings_def str_int_def parse_nat_str_nat)
qed

text \<open>
  Claim C7. For every non-negative \<open>n\<close>, reading the integer back from the
  \<^verbatim>\<open>Total readings\<close> line of the report generated with \<open>n\<close> gives \<open>n\<close>.
\<close>

theorem total_readings_round_trip:
  assumes "0 \<le> n" and "generate_report stats abnormal n = Inr report"
  shows "parse_total_readings report = Some n"
proof -
  from assms(2) obtain rest where "report =
     line ''Health Sensor Data Analysis Report'' @ line ''=================================='' @
     line [] @ line ''Dataset Summary:'' @ line (''- Total readings: '' @ str_int n) @ rest"
    using generate_report_head by blast
  with assms(1) show ?thesis
    by (simp only: parse_total_readings_head)
qed

theorem total_readings_round_trip_witness:
  "(0::int) \<le> 12
   \<and> generate_report [''avg_heart_rate'' \<mapsto> ''90.0'', ''avg_systolic_bp'' \<mapsto> ''120.5'', ''avg_glucose'' \<mapsto> ''99.9'']
        [''high_heart_rate'' \<mapsto> 1, ''high_blood_pressure'' \<mapsto> 0, ''high_glucose'' \<mapsto> 3] 12
      = Inr (report_template 12 ''90.0'' ''120.5'' ''99.9'' 1 0 3 @ '' '')
   \<and> parse_total_readings (report_template 12 ''90.0'' ''120.5'' ''99.9'' 1 0 3 @ '' '') = Some 12"
proof -
  have g: "generate_report [''avg_heart_rate'' \<mapsto> ''90.0'', ''avg_systolic_bp'' \<mapsto> ''120.5'', ''avg_glucose'' \<mapsto> ''99.9'']
        [''high_heart_rate'' \<mapsto> 1, ''high_blood_pressure'' \<mapsto> 0, ''high_glucose'' \<mapsto> 3] 12
      = Inr (report_template 12 ''90.0'' ''120.5'' ''99.9'' 1 0 3 @ '' '')"
    by (rule generate_report_Inr) simp_all
  have z: "(0::int) \<le> 12" by simp
  from total_readings_round_trip[OF z g] g z show ?thesis by simp
qed

section \<open>Properties of the pipeline\<close>

lemma calculate_statistics_lookup:
  "calculate_statistics data ''avg_heart_rate'' = Some (format_1f (np_mean (column heart_rate data)))"
  "calculate_statistics data ''avg_systolic_bp'' = Some (format_1f (np_mean (column blood_pressure_systolic data)))"
  "calculate_statistics data ''avg_glucose'' = Some (format_1f (np_mean (column glucose_level data)))"
  by (simp_all add: calculate_statistics_def)

lemma find_abnormal_readings_lookup:
  "find_abnormal_readings data ''high_heart_rate'' = Some (int (rows_above heart_rate 90 data))"
  "find_abnormal_readings data ''high_blood_pressure'' = Some (int (rows_above blood_pressure_systolic 130 data))"
  "find_abnormal_readings data ''high_glucose'' = Some (int (rows_above glucose_level 110 data))"
  by (simp_all add: find_abnormal_readings_def count_above)

lemma generate_report_of_dataset:
  "generate_report (calculate_statistics (Array1 rs)) (find_abnormal_readings (Array1 rs)) (int (length rs))
     = Inr (expected_report (Array1 rs))"
  by (simp only: expected_report_def rows_def ndarray.case
        generate_report_Inr[OF calculate_statistics_lookup find_abnormal_readings_lookup])

lemma main_unfold:
  "main g w =
     (case files w input_path of
        None \<Rightarrow> (Inl FileNotFoundError, w)
      | Some text \<Rightarrow>
          (case g text of
             Inl e \<Rightarrow> (Inl e, w)
           | Inr (Array0 r) \<Rightarrow> (Inl TypeError, w)
           | Inr (Array1 rs) \<Rightarrow>
               if writable w output_path
               then (Inr (), w\<lparr>files := (files w)(output_path \<mapsto> expected_report (Array1 rs)),
                                stdout := stdout w @ [confirmation]\<rparr>)
               else (Inl OSError, w)))"
proof (cases "files w input_path")
  case None
  then show ?thesis by (simp add: main_def load_data_def)
next
  case (Some contents)
  show ?thesis
  proof (cases "g contents")
    case (Inl e)
    with Some show ?thesis by (simp add: main_def load_data_def)
  next
    case (Inr data)
    show ?thesis
    proof (cases data)
      case (Array0 r)
      with Some Inr show ?thesis by (simp add: main_def load_data_def np_len_def)
    next
      case (Array1 rs)
      with Some Inr show ?thesis
        by (simp add: main_def load_data_def np_len_def generate_report_of_dataset
              save_report_def print_def)
    qed
  qed
qed

lemma paths_differ: "input_path \<noteq> output_path"
  by (simp add: input_path_def output_path_def)

lemma main_load_failure:
  assumes "load_data g input_path w = Inl e"
  shows "main g w = (Inl e, w)"
  using assms by (simp add: main_def)

lemma report_template_last: "last (report_template n hr bp gl n_hr n_bp n_gl) = newline"
  by (simp add: report_template_def line_def)

lemma generate_report_last:
  assumes "generate_report stats abnormal n = Inr s"
  shows "last s = CHR 0x20"
proof -
  from assms obtain body where "s = body @ [CHR 0x20]"
    by (auto simp add: generate_report_def getitem_def split: option.splits)
  then show ?thesis by simp
qed

text \<open>
  Claim C5. \<^verbatim>\<open>generate_report\<close> is to render exactly the template, with the values
  substituted verbatim, ending with a blank line. It never does: whatever the
  statistics, the counts and the total, the text it returns is not the template, since
  it renders the template and the blank line and then one more character, a space. The
  closing quotes of the f-string are indented by one space.
\<close>

theorem generate_report_trailing_space:
  "(\<forall>stats abnormal n n' hr bp gl n_hr n_bp n_gl.
      generate_report stats abnormal n \<noteq> Inr (report_template n' hr bp gl n_hr n_bp n_gl))
   \<and> generate_report
      [''avg_heart_rate'' \<mapsto> ''90.0'', ''avg_systolic_bp'' \<mapsto> ''120.5'', ''avg_glucose'' \<mapsto> ''99.9'']
      [''high_heart_rate'' \<mapsto> 1, ''high_blood_pressure'' \<mapsto> 0, ''high_glucose'' \<mapsto> 3] 2
     = Inr (report_template 2 ''90.0'' ''120.5'' ''99.9'' 1 0 3 @ '' '')"
proof (intro conjI allI notI)
  fix stats abnormal n n' hr bp gl n_hr n_bp n_gl
  assume "generate_report stats abnormal n = Inr (report_template n' hr bp gl n_hr n_bp n_gl)"
  then have "last (report_template n' hr bp gl n_hr n_bp n_gl) = CHR 0x20"
    by (rule generate_report_last)
  then show False by (simp add: report_template_last newline_def)
next
  show "generate_report
      [''avg_heart_rate'' \<mapsto> ''90.0'', ''avg_systolic_bp'' \<mapsto> ''120.5'', ''avg_glucose'' \<mapsto> ''99.9'']
      [''high_heart_rate'' \<mapsto> 1, ''high_blood_pressure'' \<mapsto> 0, ''high_glucose'' \<mapsto> 3] 2
     = Inr (report_template 2 ''90.0'' ''120.5'' ''99.9'' 1 0 3 @ '' '')"
    by (rule generate_report_Inr) simp_all
qed

lemma np_mean_empty: "np_mean [] = NaN"
  by (simp add: np_mean_def np_sum_def round_f64_def)

lemma rows_above_empty: "rows_above f t (Array1 []) = 0"
  by (simp add: rows_above_def rows_def)

lemma expected_report_empty:
  "expected_report (Array1 []) = report_template 0 ''nan'' ''nan'' ''nan'' 0 0 0 @ '' ''"
  by (simp add: expected_report_def rows_above_empty column_def np_mean_empty format_1f_def rows_def)

lemma calculate_statistics_empty:
  "calculate_statistics (Array1 []) =
     [''avg_heart_rate'' \<mapsto> ''nan'', ''avg_systolic_bp'' \<mapsto> ''nan'', ''avg_glucose'' \<mapsto> ''nan'']"
  by (simp add: calculate_statistics_def column_def np_mean_empty format_1f_def)

text \<open>
  Claim C3 (as amended). On an empty dataset nothing fails: each mean is not-a-number and
  is rendered \<^verbatim>\<open>nan\<close>, and the pipeline writes a report with \<^verbatim>\<open>nan\<close> for the three
  averages, zero for the three counts and zero total readings.
\<close>

theorem empty_dataset_renders_nan:
  assumes "files w input_path = Some contents" and "g contents = Inr (Array1 [])"
    and "writable w output_path"
  shows "calculate_statistics (Array1 []) =
      [''avg_heart_rate'' \<mapsto> ''nan'', ''avg_systolic_bp'' \<mapsto> ''nan'', ''avg_glucose'' \<mapsto> ''nan'']
    \<and> main g w =
      (Inr (), w\<lparr>files := (files w)(output_path \<mapsto> report_template 0 ''nan'' ''nan'' ''nan'' 0 0 0 @ '' ''),
                  stdout := stdout w @ [confirmation]\<rparr>)"
  using assms by (simp add: calculate_statistics_empty main_unfold expected_report_empty)

theorem empty_dataset_renders_nan_witness:
  "files (sample_world header_only_csv) input_path = Some header_only_csv
   \<and> writable (sample_world header_only_csv) output_path
   \<and> fst (main (\<lambda>contents. Inr (Array1 [])) (sample_world header_only_csv)) = Inr ()"
  using empty_dataset_renders_nan[of "sample_world header_only_csv" header_only_csv "\<lambda>contents. Inr (Array1 [])"]
  by (simp add: sample_world_def)

theorem empty_dataset_counterexample:
  "fst (main (\<lambda>contents. Inr (Array1 [])) (sample_world header_only_csv)) = Inr ()
   \<and> files (snd (main (\<lambda>contents. Inr (Array1 [])) (sample_world header_only_csv))) output_path
       = Some (report_template 0 ''nan'' ''nan'' ''nan'' 0 0 0 @ '' '')
   \<and> calculate_statistics (Array1 []) ''avg_heart_rate'' = Some ''nan''"
  by (simp add: main_unfold sample_world_def expected_report_empty calculate_statistics_empty)

text \<open>
  Claim C6. The report is to show the number of rows of the dataset the loader produced.
  A file with exactly one data row is loaded as a zero-dimensional array; the aggregator
  and the classifier accept it, but \<^verbatim>\<open>len(data)\<close> raises and no report is rendered or
  written.
\<close>

theorem main_single_row_raises:
  assumes "files w input_path = Some contents" and "g contents = Inr (Array0 r)"
  shows "main g w = (Inl TypeError, w)"
  using assms by (simp add: main_unfold)

theorem main_single_row_raises_witness:
  "files (sample_world single_row_csv) input_path
     = Some single_row_csv
   \<and> main (\<lambda>contents. Inr (Array0 (sample_row 80 130 110)))
        (sample_world single_row_csv)
     = (Inl TypeError, sample_world single_row_csv)"
  using main_single_row_raises[of "sample_world single_row_csv"
      single_row_csv
      "\<lambda>contents. Inr (Array0 (sample_row 80 130 110))" "sample_row 80 130 110"]
  by (simp add: sample_world_def)

lemma expected_report_total_readings:
  "parse_total_readings (expected_report (Array1 rs)) = Some (int (length rs))"
proof -
  have "\<exists>rest. expected_report (Array1 rs) =
     line ''Health Sensor Data Analysis Report'' @ line ''=================================='' @
     line [] @ line ''Dataset Summary:'' @ line (''- Total readings: '' @ str_int (int (length rs))) @ rest"
    using generate_report_head[OF generate_report_of_dataset] .
  then obtain rest where "expected_report (Array1 rs) =
     line ''Health Sensor Data Analysis Report'' @ line ''=================================='' @
     line [] @ line ''Dataset Summary:'' @ line (''- Total readings: '' @ str_int (int (length rs))) @ rest"
    by blast
  moreover have "0 \<le> int (length rs)" by simp
  ultimately show ?thesis by (simp only: parse_total_readings_head)
qed

lemma main_total_readings:
  assumes "main g w = (Inr (), w')"
  shows "\<exists>rs report. load_data g input_path w = Inr (Array1 rs)
      \<and> files w' output_path = Some report
      \<and> parse_total_readings report = Some (int (length rs))"
proof -
  from assms obtain contents rs where c: "files w input_path = Some contents"
      and g: "g contents = Inr (Array1 rs)" and wr: "writable w output_path"
    by (auto simp add: main_unfold split: option.splits sum.splits ndarray.splits if_splits)
  with assms have w': "files w' output_path = Some (expected_report (Array1 rs))"
    by (auto simp add: main_unfold)
  have "parse_total_readings (expected_report (Array1 rs)) = Some (int (length rs))"
    using expected_report_total_readings[of rs] .
  with c g w' show ?thesis by (simp add: load_data_def)
qed

text \<open>
  Claim C8. A second run on the world the first run left ends as the first did and
  leaves every file as the first run left it. A run that succeeds leaves in the output
  file exactly the report of the dataset parsed from the input file's text, whatever the
  output file held before: the file is truncated, never appended to.
\<close>

theorem pipeline_idempotent:
  assumes "main g w = (res, w1)"
  shows "(\<exists>w2. main g w1 = (res, w2) \<and> files w2 = files w1)
    \<and> (res = Inr () \<longrightarrow>
         (\<exists>contents rs. files w input_path = Some contents \<and> g contents = Inr (Array1 rs)
            \<and> files w1 = (files w)(output_path \<mapsto> expected_report (Array1 rs))))"
proof (cases "res = Inr ()")
  case True
  with assms obtain contents rs where c: "files w input_path = Some contents"
      and g: "g contents = Inr (Array1 rs)" and wr: "writable w output_path"
    by (auto simp add: main_unfold split: option.splits sum.splits ndarray.splits if_splits)
  with assms have w1: "w1 = w\<lparr>files := (files w)(output_path \<mapsto> expected_report (Array1 rs)),
      stdout := stdout w @ [confirmation]\<rparr>"
    by (simp add: main_unfold)
  have c1: "files w1 input_path = Some contents"
    using c paths_differ by (simp add: w1)
  have wr1: "writable w1 output_path"
    using wr by (simp add: w1)
  have "main g w1 = (Inr (), w1\<lparr>files := (files w1)(output_path \<mapsto> expected_report (Array1 rs)),
      stdout := stdout w1 @ [confirmation]\<rparr>)"
    using c1 g wr1 by (simp add: main_unfold)
  moreover have "(files w1)(output_path \<mapsto> expected_report (Array1 rs)) = files w1"
    by (simp add: w1)
  ultimately have "\<exists>w2. main g w1 = (Inr (), w2) \<and> files w2 = files w1"
    by simp
  with True c g w1 show ?thesis by simp
next
  case False
  with assms have "w1 = w"
    by (auto simp add: main_unfold split: option.splits sum.splits ndarray.splits if_splits)
  with assms False show ?thesis by simp
qed

theorem pipeline_idempotent_witness:
  "main (\<lambda>contents. Inr (Array1 [sample_row 80 130 110, sample_row 100 120 100])) (sample_world sample_csv)
     = (Inr (), (sample_world sample_csv)
          \<lparr>files := (files (sample_world sample_csv))
             (output_path \<mapsto> expected_report (Array1 [sample_row 80 130 110, sample_row 100 120 100])),
           stdout := [confirmation]\<rparr>)
   \<and> (\<exists>w2. main (\<lambda>contents. Inr (Array1 [sample_row 80 130 110, sample_row 100 120 100]))
          ((sample_world sample_csv)
          \<lparr>files := (files (sample_world sample_csv))
             (output_path \<mapsto> expected_report (Array1 [sample_row 80 130 110, sample_row 100 120 100])),
           stdout := [confirmation]\<rparr>) = (Inr (), w2)
        \<and> files w2 output_path = Some (expected_report (Array1 [sample_row 80 130 110, sample_row 100 120 100])))"
proof -
  let ?g = "\<lambda>contents::string. (Inr (Array1 [sample_row 80 130 110, sample_row 100 120 100]) :: py_error + ndarray)"
  let ?w1 = "(sample_world sample_csv)
          \<lparr>files := (files (sample_world sample_csv))
             (output_path \<mapsto> expected_report (Array1 [sample_row 80 130 110, sample_row 100 120 100])),
           stdout := [confirmation]\<rparr>"
  have run: "main ?g (sample_world sample_csv) = (Inr (), ?w1)"
    by (simp add: main_unfold sample_world_def)
  from pipeline_idempotent[OF run] obtain w2 where "main ?g ?w1 = (Inr (), w2)" "files w2 = files ?w1"
    by blast
  then have "\<exists>w2. main ?g ?w1 = (Inr (), w2)
      \<and> files w2 output_path = Some (expected_report (Array1 [sample_row 80 130 110, sample_row 100 120 100]))"
    by simp
  with run show ?thesis by blast
qed




section \<open>Properties of rounding\<close>

lemma round_half_even_of_int: "round_half_even (of_int z) = z"
  by (simp add: round_half_even_def)

lemma round_half_even_error: "\<bar>of_int (round_half_even q) - q\<bar> \<le> 1 / 2"
proof -
  have "of_int \<lfloor>q\<rfloor> \<le> q" "q < of_int \<lfloor>q\<rfloor> + 1" by linarith+
  then show ?thesis
    by (auto simp add: round_half_even_def Let_def abs_le_iff)
qed

lemma round_half_even_tie:
  assumes "\<bar>of_int (round_half_even q) - q\<bar> = 1 / 2"
  shows "even (round_half_even q)"
proof -
  let ?f = "\<lfloor>q\<rfloor>"
  have b: "of_int ?f \<le> q" "q < of_int ?f + 1" by linarith+
  consider (lo) "q - of_int ?f < 1 / 2" | (hi) "1 / 2 < q - of_int ?f" | (tie) "q - of_int ?f = 1 / 2"
    by linarith
  then show ?thesis
  proof cases
    case lo
    then have "round_half_even q = ?f" by (simp add: round_half_even_def)
    with assms have "\<bar>of_int ?f - q\<bar> = 1 / 2" by simp
    with b lo show ?thesis by linarith
  next
    case hi
    then have "round_half_even q = ?f + 1" by (simp add: round_half_even_def Let_def)
    with assms have "\<bar>of_int ?f + 1 - q\<bar> = 1 / 2" by simp
    with b hi show ?thesis by linarith
  next
    case tie
    then show ?thesis by (simp add: round_half_even_def Let_def)
  qed
qed

lemma round_half_even_nonneg: "0 \<le> q \<Longrightarrow> 0 \<le> round_half_even q"
  by (auto simp add: round_half_even_def Let_def)

lemma pow2_of_int: "0 \<le> k \<Longrightarrow> (of_int (2 ^ nat k) :: rat) = 2 powi k"
  by (simp add: power_int_nonneg_exp)

lemma bitlen_rat_bounds:
  assumes "0 < a"
  shows "(2::rat) powi (bitlen a - 1) \<le> of_int a" and "(of_int a :: rat) < 2 powi (bitlen a)"
proof -
  from assms have pos: "1 \<le> bitlen a" by (auto simp add: bitlen_alt_def)
  from bitlen_bounds[OF assms] have l: "2 ^ nat (bitlen a - 1) \<le> a" and u: "a < 2 ^ nat (bitlen a)"
    by simp_all
  from l have "(of_int (2 ^ nat (bitlen a - 1)) :: rat) \<le> of_int a" by (simp only: of_int_le_iff)
  with pos show "(2::rat) powi (bitlen a - 1) \<le> of_int a" by (simp add: power_int_nonneg_exp)
  from u have "(of_int a :: rat) < of_int (2 ^ nat (bitlen a))" by (simp only: of_int_less_iff)
  with pos show "(of_int a :: rat) < 2 powi (bitlen a)" by (simp add: power_int_nonneg_exp)
qed

lemma ilog2_bounds:
  assumes "0 < q"
  shows "2 powi (ilog2 q) \<le> q" and "q < 2 powi (ilog2 q + 1)"
proof -
  obtain a b where ab: "quotient_of q = (a, b)" by (cases "quotient_of q")
  then have b: "0 < b" and q: "q = of_int a / of_int b"
    by (simp_all add: quotient_of_denom_pos quotient_of_div)
  with assms have a: "0 < a" by (simp add: zero_less_divide_iff)
  let ?e = "bitlen a - bitlen b"
  note ba = bitlen_rat_bounds[OF a] and bb = bitlen_rat_bounds[OF b]
  have bpos: "(0::rat) < of_int b" using b by simp
  have up: "q < 2 powi (?e + 1)"
  proof -
    have "q * of_int b = of_int a" using q bpos by simp
    also have "\<dots> < 2 powi (bitlen a)" by (rule ba(2))
    also have "\<dots> = (2::rat) powi (?e + 1) * 2 powi (bitlen b - 1)"
      by (simp flip: power_int_add)
    also have "\<dots> \<le> 2 powi (?e + 1) * of_int b"
      using bb(1) by (simp add: mult_left_mono)
    finally show ?thesis using bpos by simp
  qed
  have low: "2 powi (?e - 1) \<le> q"
  proof -
    have "(2::rat) powi (?e - 1) * of_int b \<le> 2 powi (?e - 1) * 2 powi (bitlen b)"
      using bb(2) by (simp add: mult_left_mono)
    also have "\<dots> = 2 powi (bitlen a - 1)" by (simp flip: power_int_add)
    also have "\<dots> \<le> of_int a" by (rule ba(1))
    also have "\<dots> = q * of_int b" using q bpos by simp
    finally show ?thesis using bpos by simp
  qed
  have il: "ilog2 q = (if 2 powi ?e \<le> q then ?e else ?e - 1)"
    by (simp add: ilog2_def ab Let_def)
  show "2 powi (ilog2 q) \<le> q" using low by (simp add: il)
  show "q < 2 powi (ilog2 q + 1)" using up by (auto simp add: il not_le)
qed

lemma pow2_mono: "a \<le> b \<Longrightarrow> (2::rat) powi a \<le> 2 powi b"
  by (rule power_int_increasing) simp_all

lemma pow2_strict_mono: "a < b \<Longrightarrow> (2::rat) powi a < 2 powi b"
  by (rule power_int_strict_increasing) simp_all

lemma ilog2_unique:
  assumes "2 powi e \<le> q" and "q < 2 powi (e + 1)"
  shows "ilog2 q = e"
proof -
  have q: "0 < q" using assms(1) by (rule less_le_trans[rotated]) simp
  note b = ilog2_bounds[OF q]
  have "\<not> ilog2 q < e"
  proof
    assume "ilog2 q < e"
    then have "ilog2 q + 1 \<le> e" by simp
    then have "(2::rat) powi (ilog2 q + 1) \<le> 2 powi e" by (rule pow2_mono)
    with b(2) assms(1) show False by simp
  qed
  moreover have "\<not> e < ilog2 q"
  proof
    assume "e < ilog2 q"
    then have "e + 1 \<le> ilog2 q" by simp
    then have "(2::rat) powi (e + 1) \<le> 2 powi (ilog2 q)" by (rule pow2_mono)
    with b(1) assms(2) show False by simp
  qed
  ultimately show ?thesis by simp
qed

section \<open>Rounding to binary64\<close>

lemma round_f64_pos_exact:
  assumes m: "0 < m" "m \<le> 2 ^ 53" and p: "- 1074 \<le> p" "p \<le> 970"
  shows "round_f64_pos (of_int m * 2 powi p) = Finite (of_int m * 2 powi p)"
proof -
  let ?q = "of_int m * 2 powi p :: rat"
  have q: "0 < ?q" using m(1) by simp
  define P where "P = max (ilog2 ?q - 52) (- 1074)"
  note b = ilog2_bounds[OF q]
  have "\<exists>z. ?q / 2 powi P = of_int z"
  proof (cases "P \<le> p")
    case True
    have "?q / 2 powi P = of_int m * 2 powi (p - P)"
      by (simp add: power_int_diff)
    also have "\<dots> = of_int (m * 2 ^ nat (p - P))"
      using True by (simp add: power_int_nonneg_exp)
    finally show ?thesis by blast
  next
    case False
    with p(1) have P: "P = ilog2 ?q - 52" and lt: "p < ilog2 ?q - 52"
      by (simp_all add: P_def max_def split: if_splits)
    have "(2::rat) powi (ilog2 ?q) \<le> of_int m * 2 powi p" by (rule b(1))
    then have "(2::rat) powi (ilog2 ?q) / 2 powi p \<le> of_int m"
      by (simp add: pos_divide_le_eq)
    then have le: "(2::rat) powi (ilog2 ?q - p) \<le> of_int m"
      by (simp add: power_int_diff)
    have "\<not> 54 \<le> ilog2 ?q - p"
    proof
      assume "54 \<le> ilog2 ?q - p"
      then have "(2::rat) powi 54 \<le> 2 powi (ilog2 ?q - p)" by (rule pow2_mono)
      with le have "(2::rat) ^ 54 \<le> of_int m" by simp
      moreover have "(of_int m :: rat) \<le> of_int (2 ^ 53)" using m(2) by (simp only: of_int_le_iff)
      ultimately show False by simp
    qed
    with lt have e: "ilog2 ?q - p = 53" by simp
    with le have "(2::rat) ^ 53 \<le> of_int m" by simp
    then have "(of_int (2 ^ 53) :: rat) \<le> of_int m" by simp
    then have "2 ^ 53 \<le> m" by (simp only: of_int_le_iff)
    with m(2) have m53: "m = 2 ^ 53" by simp
    from e P have "P = p + 1" by simp
    then have "?q / 2 powi P = of_int m * (2 powi p / 2 powi (p + 1))" by simp
    also have "(2::rat) powi p / 2 powi (p + 1) = 2 powi (- 1)"
      by (simp flip: power_int_diff)
    also have "of_int m * (2::rat) powi (- 1) = of_int (2 ^ 52)"
      by (simp add: m53 power_int_minus)
    finally show ?thesis by blast
  qed
  then obtain z where z: "?q / 2 powi P = of_int z" by blast
  have "of_int (round_half_even (?q / 2 powi P)) = ?q / 2 powi P"
    by (simp only: z round_half_even_of_int)
  then have v: "of_int (round_half_even (?q / 2 powi P)) * 2 powi P = ?q"
    by simp
  have "?q \<le> of_int (2 ^ 53) * 2 powi 970"
  proof (rule mult_mono)
    show "(of_int m :: rat) \<le> of_int (2 ^ 53)" using m(2) by (simp only: of_int_le_iff)
    show "(2::rat) powi p \<le> 2 powi 970" using p(2) by (rule pow2_mono)
  qed simp_all
  also have "\<dots> = 2 powi 53 * 2 powi 970" by simp
  also have "\<dots> = 2 powi (53 + 970)" by (rule power_int_add[symmetric]) simp
  also have "\<dots> < 2 powi 1024" by (rule pow2_strict_mono) simp
  finally have "?q < 2 powi 1024" .
  with v show ?thesis
    by (simp only: round_f64_pos_def Let_def flip: P_def) simp
qed

lemma round_f64_exact:
  assumes m: "\<bar>m\<bar> \<le> 2 ^ 53" and p: "- 1074 \<le> p" "p \<le> 970"
  shows "round_f64 (of_int m * 2 powi p) = Finite (of_int m * 2 powi p)"
proof -
  consider "m = 0" | "0 < m" | "m < 0" by linarith
  then show ?thesis
  proof cases
    case 1
    then show ?thesis by (simp add: round_f64_def)
  next
    case 2
    with m have "m \<le> 2 ^ 53" by simp
    from round_f64_pos_exact[OF 2 this p] 2 show ?thesis
      by (simp add: round_f64_def)
  next
    case 3
    with m have "0 < - m" "- m \<le> 2 ^ 53" by simp_all
    moreover have neg: "of_int m * 2 powi p < (0::rat)"
      using 3 by (simp add: mult_neg_pos)
    ultimately show ?thesis
      using round_f64_pos_exact[OF _ _ p, of "- m"] by (simp add: round_f64_def f64_neg_def)
  qed
qed

lemma round_f64_int: "\<bar>z\<bar> \<le> 2 ^ 53 \<Longrightarrow> round_f64 (of_int z) = Finite (of_int z)"
  using round_f64_exact[of z 0] by simp

lemma round_f64_pos_error:
  assumes lo: "2 powi (- 1022) \<le> q" and hi: "q < 2 powi 1023"
  shows "\<exists>v. round_f64_pos q = Finite v \<and> \<bar>v - q\<bar> \<le> q * 2 powi (- 53) \<and> 0 < v"
proof -
  have q: "0 < q" using lo by (rule less_le_trans[rotated]) simp
  note b = ilog2_bounds[OF q]
  let ?e = "ilog2 q"
  have "\<not> ?e + 1 \<le> - 1022"
  proof
    assume "?e + 1 \<le> - 1022"
    then have "(2::rat) powi (?e + 1) \<le> 2 powi (- 1022)" by (rule pow2_mono)
    with b(2) lo show False by simp
  qed
  then have e_lo: "- 1022 \<le> ?e" by simp
  define P where "P = ?e - 52"
  have P: "max (?e - 52) (- 1074) = P" using e_lo by (simp add: P_def)
  define m where "m = round_half_even (q / 2 powi P)"
  define v where "v = of_int m * (2::rat) powi P"
  have Ppos: "(0::rat) < 2 powi P" by simp
  have "\<bar>of_int m - q / 2 powi P\<bar> \<le> 1 / 2"
    unfolding m_def by (rule round_half_even_error)
  then have "\<bar>of_int m - q / 2 powi P\<bar> * 2 powi P \<le> 1 / 2 * 2 powi P"
    using Ppos by (simp only: mult_le_cancel_right_pos)
  moreover have "\<bar>of_int m - q / 2 powi P\<bar> * 2 powi P = \<bar>v - q\<bar>"
  proof -
    have "\<bar>of_int m - q / 2 powi P\<bar> * 2 powi P = \<bar>(of_int m - q / 2 powi P) * 2 powi P\<bar>"
      by (simp add: abs_mult)
    also have "(of_int m - q / 2 powi P) * 2 powi P = v - q"
      by (simp add: v_def algebra_simps)
    finally show ?thesis .
  qed
  moreover have "1 / 2 * (2::rat) powi P = 2 powi ?e * 2 powi (- 53)"
  proof -
    have "(2::rat) powi (?e + (- 53)) = 2 powi ?e * 2 powi (- 53)"
      by (rule power_int_add) simp
    moreover have "?e + (- 53) = P - 1" by (simp add: P_def)
    ultimately have "(2::rat) powi ?e * 2 powi (- 53) = 2 powi (P - 1)"
      by (simp only:)
    also have "\<dots> = 2 powi P / 2" by (simp add: power_int_diff)
    finally show ?thesis by simp
  qed
  ultimately have "\<bar>v - q\<bar> \<le> 2 powi ?e * 2 powi (- 53)" by simp
  also have "\<dots> \<le> q * 2 powi (- 53)"
    using b(1) by (simp only: mult_le_cancel_right_pos zero_less_power_int zero_less_numeral)
  finally have err: "\<bar>v - q\<bar> \<le> q * 2 powi (- 53)" .
  have small: "(2::rat) powi (- 53) \<le> 1 / 2"
    by (simp add: power_int_minus field_simps)
  have "q * 2 powi (- 53) \<le> q * (1 / 2)"
    using small q by (simp only: mult_le_cancel_left_pos)
  with err have e2: "\<bar>v - q\<bar> \<le> q / 2" by simp
  then have vpos: "0 < v" using q by linarith
  from e2 q have "v < 2 * q" by linarith
  also have "\<dots> < 2 * 2 powi 1023" using hi by simp
  also have "\<dots> = 2 powi 1024" by simp
  finally have "v < 2 powi 1024" .
  then have "round_f64_pos q = Finite v"
    by (simp only: round_f64_pos_def P Let_def flip: m_def v_def) simp
  with err vpos show ?thesis by blast
qed

lemma round_f64_error:
  assumes lo: "2 powi (- 1022) \<le> \<bar>q\<bar>" and hi: "\<bar>q\<bar> < 2 powi 1023"
  shows "\<exists>v. round_f64 q = Finite v \<and> \<bar>v - q\<bar> \<le> \<bar>q\<bar> * 2 powi (- 53)
    \<and> (0 < q \<longrightarrow> 0 < v) \<and> (q < 0 \<longrightarrow> v < 0)"
proof -
  have nz: "q \<noteq> 0"
  proof
    assume "q = 0"
    with lo have "(2::rat) powi (- 1022) \<le> 0" by simp
    moreover have "(0::rat) < 2 powi (- 1022)" by simp
    ultimately show False by simp
  qed
  show ?thesis
  proof (cases "0 < q")
    case True
    with lo hi have "2 powi (- 1022) \<le> q" "q < 2 powi 1023" by simp_all
    from round_f64_pos_error[OF this] obtain v where
      "round_f64_pos q = Finite v" "\<bar>v - q\<bar> \<le> q * 2 powi (- 53)" "0 < v" by blast
    with True show ?thesis by (simp add: round_f64_def)
  next
    case False
    with nz have neg: "q < 0" by simp
    with lo hi have "2 powi (- 1022) \<le> - q" "- q < 2 powi 1023" by simp_all
    from round_f64_pos_error[OF this] obtain v where
      v: "round_f64_pos (- q) = Finite v" "\<bar>v - (- q)\<bar> \<le> (- q) * 2 powi (- 53)" "0 < v" by blast
    have "round_f64 q = Finite (- v)"
      using neg v(1) by (simp add: round_f64_def f64_neg_def)
    moreover have "\<bar>- v - q\<bar> = \<bar>v - (- q)\<bar>" by (simp add: abs_minus_commute)
    moreover have "\<bar>q\<bar> = - q" using neg by simp
    ultimately show ?thesis using v(2,3) neg by simp
  qed
qed

section \<open>The mean of a column\<close>

lemma sint32_bound: "\<bar>sint (w :: 32 word)\<bar> \<le> 2 ^ 31"
  using sint_ge[of w] sint_lt[of w] by simp

lemma column_bound: "\<forall>x\<in>set (column f data). \<bar>x\<bar> \<le> 2 ^ 31"
  using sint32_bound by (auto simp add: column_rows)

lemma length_column: "length (column f data) = length (rows data)"
  by (simp add: column_rows)

lemma foldl_f64_add_exact:
  assumes "\<forall>x\<in>set xs. \<bar>x\<bar> \<le> 2 ^ 31"
    and "\<bar>a\<bar> + int (length xs) * 2 ^ 31 \<le> 2 ^ 53"
  shows "foldl f64_add (Finite (of_int a)) (map (\<lambda>x. round_f64 (of_int x)) xs)
    = Finite (of_int (a + sum_list xs))"
  using assms
proof (induction xs arbitrary: a)
  case Nil
  then show ?case by simp
next
  case (Cons x xs)
  from Cons.prems have x: "\<bar>x\<bar> \<le> 2 ^ 31" and rest: "\<forall>x\<in>set xs. \<bar>x\<bar> \<le> 2 ^ 31"
    and room: "\<bar>a\<bar> + (int (length xs) + 1) * 2 ^ 31 \<le> 2 ^ 53"
    by (simp_all add: algebra_simps)
  have "0 \<le> int (length xs) * 2 ^ 31" by simp
  with room x have ax: "\<bar>a + x\<bar> \<le> 2 ^ 53"
    and room': "\<bar>a + x\<bar> + int (length xs) * 2 ^ 31 \<le> 2 ^ 53"
    by (simp_all add: algebra_simps)
  from x have "\<bar>x\<bar> \<le> 2 ^ 53" by simp
  then have cast: "round_f64 (of_int x) = Finite (of_int x)" by (rule round_f64_int)
  have "f64_add (Finite (of_int a)) (round_f64 (of_int x)) = round_f64 (of_int (a + x))"
    by (simp add: cast)
  also have "\<dots> = Finite (of_int (a + x))" using ax by (rule round_f64_int)
  finally have step: "f64_add (Finite (of_int a)) (round_f64 (of_int x)) = Finite (of_int (a + x))" .
  show ?case
    using Cons.IH[OF rest room'] by (simp add: step add.assoc)
qed

lemma np_sum_exact:
  assumes "\<forall>x\<in>set xs. \<bar>x\<bar> \<le> 2 ^ 31" and "length xs \<le> 4194304"
  shows "np_sum xs = Finite (of_int (sum_list xs))"
proof -
  from assms(2) have "int (length xs) * 2 ^ 31 \<le> 4194304 * 2 ^ 31" by simp
  then have "\<bar>0::int\<bar> + int (length xs) * 2 ^ 31 \<le> 2 ^ 53" by simp
  from foldl_f64_add_exact[OF assms(1) this] show ?thesis
    by (simp add: np_sum_def)
qed

lemma np_mean_round:
  assumes "\<forall>x\<in>set xs. \<bar>x\<bar> \<le> 2 ^ 31" and "length xs \<le> 4194304" and "xs \<noteq> []"
  shows "np_mean xs = round_f64 (exact_mean xs)"
proof -
  have "\<bar>int (length xs)\<bar> \<le> 2 ^ 53" using assms(2) by simp
  then have "round_f64 (of_int (int (length xs))) = Finite (of_int (int (length xs)))"
    by (rule round_f64_int)
  then have n: "round_f64 (of_nat (length xs)) = Finite (of_nat (length xs))" by simp
  show ?thesis
    using assms(3) by (simp add: np_mean_def np_sum_exact[OF assms(1,2)] n exact_mean_def)
qed

lemma grid_rounding:
  fixes K a n :: int and y' :: rat
  assumes n: "0 < n" and near: "\<bar>of_int K - y'\<bar> \<le> 1 / 2"
    and close: "\<bar>y' - of_int a / of_int n\<bar> * (2 * of_int n) < 1"
  shows "\<bar>(of_int K :: rat) - of_int a / of_int n\<bar> \<le> 1 / 2"
proof -
  let ?n = "of_int n :: rat"
  have npos: "0 < ?n" using n by simp
  define A where "A = (of_int K - y') * (2 * ?n)"
  define B where "B = (y' - of_int a / ?n) * (2 * ?n)"
  have "\<bar>A\<bar> = \<bar>of_int K - y'\<bar> * (2 * ?n)"
    using npos by (simp add: A_def abs_mult)
  also have "\<dots> \<le> 1 / 2 * (2 * ?n)"
    using near npos by (intro mult_right_mono) simp_all
  finally have A: "\<bar>A\<bar> \<le> ?n" by simp
  have "\<bar>B\<bar> = \<bar>y' - of_int a / ?n\<bar> * (2 * ?n)"
    using npos by (simp add: B_def abs_mult)
  with close have B: "\<bar>B\<bar> < 1" by simp
  have "A + B = (of_int K - of_int a / ?n) * (2 * ?n)"
    by (simp add: A_def B_def algebra_simps)
  also have "\<dots> = of_int (2 * n * K - 2 * a)"
    using npos by (simp add: field_simps)
  finally have Z: "A + B = of_int (2 * n * K - 2 * a)" .
  have "\<bar>A + B\<bar> \<le> \<bar>A\<bar> + \<bar>B\<bar>" by (rule abs_triangle_ineq)
  with A B have "\<bar>A + B\<bar> < ?n + 1" by linarith
  then have "\<bar>of_int (2 * n * K - 2 * a) :: rat\<bar> < ?n + 1"
    by (simp only: Z)
  then have "(of_int \<bar>2 * n * K - 2 * a\<bar> :: rat) < of_int (n + 1)" by simp
  then have "\<bar>2 * n * K - 2 * a\<bar> < n + 1" by (simp only: of_int_less_iff)
  then have "\<bar>2 * n * K - 2 * a\<bar> \<le> n" by simp
  then have "(of_int \<bar>2 * n * K - 2 * a\<bar> :: rat) \<le> ?n" by (simp only: of_int_le_iff)
  then have "\<bar>A + B\<bar> \<le> ?n" by (simp add: Z)
  then have "\<bar>(of_int K - of_int a / ?n) * (2 * ?n)\<bar> \<le> ?n"
    by (simp add: A_def B_def algebra_simps)
  then have "\<bar>of_int K - of_int a / ?n\<bar> * (2 * ?n) \<le> 1 / 2 * (2 * ?n)"
    using npos by (simp add: abs_mult)
  then show ?thesis
    using npos by (simp only: mult_le_cancel_right_pos)
qed

lemma str_nat_digit: "d < 10 \<Longrightarrow> str_nat d = [digit_char d]"
  by (subst str_nat.simps) simp

lemma format_1f_Finite:
  "format_1f (Finite v) = decimal1 (v < 0) (nat (round_half_even (\<bar>v\<bar> * 10)))"
  by (simp add: format_1f_def decimal1_def Let_def str_nat_digit)

section \<open>Rendering the mean\<close>

lemma abs_sum_nonneg: "0 \<le> abs_sum xs"
  by (induction xs) (simp_all add: abs_sum_def)

lemma abs_sum_list_le: "\<bar>sum_list xs\<bar> \<le> abs_sum xs"
  by (induction xs) (simp_all add: abs_sum_def)

lemma foldl_f64_add_exact_abs:
  assumes "\<bar>a\<bar> + abs_sum xs \<le> 2 ^ 53"
  shows "foldl f64_add (Finite (of_int a)) (map (\<lambda>x. round_f64 (of_int x)) xs)
    = Finite (of_int (a + sum_list xs))"
  using assms
proof (induction xs arbitrary: a)
  case Nil
  then show ?case by simp
next
  case (Cons x xs)
  have nn: "0 \<le> abs_sum xs" by (rule abs_sum_nonneg)
  from Cons.prems have room: "\<bar>a\<bar> + \<bar>x\<bar> + abs_sum xs \<le> 2 ^ 53"
    by (simp add: abs_sum_def)
  with nn have x: "\<bar>x\<bar> \<le> 2 ^ 53" and ax: "\<bar>a + x\<bar> \<le> 2 ^ 53"
    and room': "\<bar>a + x\<bar> + abs_sum xs \<le> 2 ^ 53"
    by linarith+
  have cast: "round_f64 (of_int x) = Finite (of_int x)" using x by (rule round_f64_int)
  have "f64_add (Finite (of_int a)) (round_f64 (of_int x)) = round_f64 (of_int (a + x))"
    by (simp add: cast)
  also have "\<dots> = Finite (of_int (a + x))" using ax by (rule round_f64_int)
  finally have step: "f64_add (Finite (of_int a)) (round_f64 (of_int x)) = Finite (of_int (a + x))" .
  show ?case
    using Cons.IH[OF room'] by (simp add: step add.assoc)
qed

lemma np_sum_exact_abs:
  assumes "abs_sum xs \<le> 2 ^ 53"
  shows "np_sum xs = Finite (of_int (sum_list xs))"
proof -
  from assms have "\<bar>0::int\<bar> + abs_sum xs \<le> 2 ^ 53" by simp
  from foldl_f64_add_exact_abs[OF this] show ?thesis by (simp add: np_sum_def)
qed

lemma round_half_even_small: "0 \<le> y \<Longrightarrow> y < 1 / 2 \<Longrightarrow> round_half_even y = 0"
proof -
  assume a: "0 \<le> y" "y < 1 / 2"
  then have "\<lfloor>y\<rfloor> = 0" by (intro floor_unique) simp_all
  with a show ?thesis by (simp add: round_half_even_def)
qed

lemma quotient_to_one_decimal:
  fixes S N :: int
  assumes N: "0 < N" "N \<le> 2 ^ 53" and s: "\<bar>S\<bar> < 2 ^ 48"
  shows "rounds_to_one_decimal (format_1f (round_f64 (of_int S / of_int N))) (of_int S / of_int N)"
proof -
  define q :: rat where "q = of_int S / of_int N"
  have Npos: "(0::rat) < of_int N" using N(1) by simp
  show ?thesis
  proof (cases "S = 0")
    case True
    then have "q = 0" by (simp add: q_def)
    then have "format_1f (round_f64 q) = decimal1 (q < 0) 0"
      by (simp add: round_f64_def format_1f_Finite round_half_even_def)
    with \<open>q = 0\<close> show ?thesis
      unfolding rounds_to_one_decimal_def q_def[symmetric] by (intro exI[of _ 0]) simp
  next
    case False
    then have S1: "1 \<le> \<bar>S\<bar>" by simp
    have aq: "\<bar>q\<bar> = of_int \<bar>S\<bar> / of_int N" using Npos by (simp add: q_def abs_divide)
    have lo: "2 powi (- 1022) \<le> \<bar>q\<bar>"
    proof -
      have "(of_int N :: rat) \<le> of_int (2 ^ 53)" using N(2) by (simp only: of_int_le_iff)
      then have N53: "(of_int N :: rat) \<le> 2 ^ 53" by simp
      have "(2::rat) powi (- 1022) \<le> 2 powi (- 53)" by (rule pow2_mono) simp
      also have "\<dots> = 1 / 2 ^ 53" by (simp add: power_int_minus field_simps)
      also have "\<dots> \<le> 1 / of_int N"
        using N53 Npos by (intro divide_left_mono) simp_all
      also have "\<dots> \<le> of_int \<bar>S\<bar> / of_int N"
        using S1 Npos by (intro divide_right_mono) simp_all
      finally show ?thesis by (simp only: aq)
    qed
    have S48: "(of_int \<bar>S\<bar> :: rat) < 2 ^ 48"
    proof -
      have "(of_int \<bar>S\<bar> :: rat) < of_int (2 ^ 48)" using s by (simp only: of_int_less_iff)
      then show ?thesis by simp
    qed
    have qS: "\<bar>q\<bar> \<le> of_int \<bar>S\<bar>"
    proof -
      have "(1::rat) \<le> of_int N" using N(1) by simp
      then have "of_int \<bar>S\<bar> / of_int N \<le> (of_int \<bar>S\<bar> :: rat) / 1"
        by (intro divide_left_mono) simp_all
      then show ?thesis by (simp add: aq)
    qed
    have hi: "\<bar>q\<bar> < 2 powi 1023"
    proof -
      have "\<bar>q\<bar> < 2 powi 48" using qS S48 by simp
      also have "(2::rat) powi 48 \<le> 2 powi 1023" by (rule pow2_mono) simp
      finally show ?thesis .
    qed
    from round_f64_error[OF lo hi] obtain v where v: "round_f64 q = Finite v"
      and err: "\<bar>v - q\<bar> \<le> \<bar>q\<bar> * 2 powi (- 53)"
      and sg: "0 < q \<longrightarrow> 0 < v" "q < 0 \<longrightarrow> v < 0" by blast
    have qnz: "q \<noteq> 0" using False Npos by (simp add: q_def)
    with sg have sign: "v < 0 \<longleftrightarrow> q < 0" by (cases "0 < q") auto
    define K where "K = round_half_even (\<bar>v\<bar> * 10)"
    have K0: "0 \<le> K" unfolding K_def by (rule round_half_even_nonneg) simp
    have fmt: "format_1f (round_f64 q) = decimal1 (q < 0) (nat K)"
      by (simp add: v format_1f_Finite sign K_def)
    have near: "\<bar>of_int K - \<bar>v\<bar> * 10\<bar> \<le> 1 / 2"
      unfolding K_def by (rule round_half_even_error)
    have close: "\<bar>\<bar>v\<bar> * 10 - of_int (10 * \<bar>S\<bar>) / of_int N\<bar> * (2 * of_int N) < 1"
    proof -
      have e: "\<bar>v\<bar> * 10 - of_int (10 * \<bar>S\<bar>) / of_int N = 10 * (\<bar>v\<bar> - \<bar>q\<bar>)"
        by (simp add: aq)
      have "\<bar>10 * (\<bar>v\<bar> - \<bar>q\<bar>)\<bar> = 10 * \<bar>\<bar>v\<bar> - \<bar>q\<bar>\<bar>"
        by (subst abs_mult) simp
      then have "\<bar>\<bar>v\<bar> * 10 - of_int (10 * \<bar>S\<bar>) / of_int N\<bar> = 10 * \<bar>\<bar>v\<bar> - \<bar>q\<bar>\<bar>"
        by (simp only: e)
      also have "\<dots> \<le> 10 * \<bar>v - q\<bar>"
        using abs_triangle_ineq3[of v q] by simp
      also have "\<dots> \<le> 10 * (\<bar>q\<bar> * 2 powi (- 53))" using err by simp
      finally have "\<bar>\<bar>v\<bar> * 10 - of_int (10 * \<bar>S\<bar>) / of_int N\<bar> * (2 * of_int N)
          \<le> 10 * (\<bar>q\<bar> * 2 powi (- 53)) * (2 * of_int N)"
        using Npos by (intro mult_right_mono) simp_all
      also have "\<dots> = 20 * of_int \<bar>S\<bar> * 2 powi (- 53)"
        using Npos by (simp add: aq)
      also have "\<dots> < 20 * 2 ^ 48 * 2 powi (- 53)"
        using S48 by simp
      also have "\<dots> \<le> 1" by (simp add: power_int_minus field_simps)
      finally show ?thesis .
    qed
    from grid_rounding[OF N(1) near close]
    have "\<bar>of_int K - of_int (10 * \<bar>S\<bar>) / of_int N\<bar> \<le> (1 / 2 :: rat)" .
    then have "\<bar>of_int K - 10 * \<bar>q\<bar>\<bar> \<le> 1 / 2" by (simp add: aq)
    then have "\<bar>of_int K / 10 - \<bar>q\<bar>\<bar> \<le> 1 / 20" by (simp add: abs_le_iff field_simps)
    moreover have "(of_nat (nat K) :: rat) = of_int K" using K0 by simp
    ultimately have "\<bar>of_nat (nat K) / 10 - \<bar>q\<bar>\<bar> \<le> 1 / 20" by simp
    with fmt show ?thesis
      unfolding rounds_to_one_decimal_def q_def[symmetric] by blast
  qed
qed

lemma huge_count_to_one_decimal:
  fixes S N :: int
  assumes N: "2 ^ 53 < N" "N < 2 ^ 63" and s: "\<bar>S\<bar> < 2 ^ 48"
  shows "rounds_to_one_decimal
     (format_1f (f64_div (Finite (of_int S)) (round_f64 (of_int N)))) (of_int S / of_int N)"
proof -
  define q :: rat where "q = of_int S / of_int N"
  have N53: "(2::rat) ^ 53 < of_int N"
  proof -
    have "(of_int (2 ^ 53) :: rat) < of_int N" using N(1) by (simp only: of_int_less_iff)
    then show ?thesis by simp
  qed
  then have Npos: "(0::rat) < of_int N" by (rule less_trans[rotated]) simp
  have N63: "(of_int N :: rat) < 2 ^ 63"
  proof -
    have "(of_int N :: rat) < of_int (2 ^ 63)" using N(2) by (simp only: of_int_less_iff)
    then show ?thesis by simp
  qed
  have lo: "2 powi (- 1022) \<le> \<bar>of_int N :: rat\<bar>"
  proof -
    have "(2::rat) powi (- 1022) \<le> 2 powi 53" by (rule pow2_mono) simp
    also have "\<dots> \<le> \<bar>of_int N\<bar>" using N53 by simp
    finally show ?thesis .
  qed
  have hi: "\<bar>of_int N :: rat\<bar> < 2 powi 1023"
  proof -
    have "\<bar>of_int N :: rat\<bar> < 2 powi 63" using N63 Npos by simp
    also have "(2::rat) powi 63 \<le> 2 powi 1023" by (rule pow2_mono) simp
    finally show ?thesis .
  qed
  from round_f64_error[OF lo hi] obtain N' where N': "round_f64 (of_int N) = Finite N'"
    and errN: "\<bar>N' - of_int N\<bar> \<le> \<bar>of_int N\<bar> * 2 powi (- 53)" by blast
  have tiny: "(2::rat) powi (- 53) = 1 / 2 ^ 53" by (simp add: power_int_minus field_simps)
  have "\<bar>of_int N :: rat\<bar> * 2 powi (- 53) \<le> of_int N / 8"
    using Npos by (simp add: tiny field_simps)
  with errN have "\<bar>N' - of_int N\<bar> \<le> of_int N / 8" by linarith
  then have "N' - of_int N \<le> of_int N / 8" and "- (N' - of_int N) \<le> of_int N / 8"
    by (simp_all only: abs_le_iff)
  then have N'lo: "of_int N * (7 / 8) \<le> N'" and N'hi: "N' \<le> of_int N * (9 / 8)"
    by linarith+
  have N'big: "3 * 2 ^ 51 < N'"
  proof -
    have "(3 * 2 ^ 51 :: rat) < 2 ^ 53 * (7 / 8)" by simp
    also have "\<dots> < of_int N * (7 / 8)" using N53 by simp
    finally show ?thesis using N'lo by simp
  qed
  then have N'pos: "0 < N'" by (rule less_trans[rotated]) simp
  have N'64: "N' < 2 ^ 64"
  proof -
    have "of_int N * (9 / 8) < (2 ^ 63 :: rat) * (9 / 8)" using N63 by simp
    also have "\<dots> < 2 ^ 64" by simp
    finally show ?thesis using N'hi by simp
  qed
  have div: "f64_div (Finite (of_int S)) (round_f64 (of_int N)) = round_f64 (of_int S / N')"
    using N'pos by (simp add: N')
  have S48: "(of_int \<bar>S\<bar> :: rat) < 2 ^ 48"
  proof -
    have "(of_int \<bar>S\<bar> :: rat) < of_int (2 ^ 48)" using s by (simp only: of_int_less_iff)
    then show ?thesis by simp
  qed
  have aq: "\<bar>q\<bar> = of_int \<bar>S\<bar> / of_int N" using Npos by (simp add: q_def abs_divide)
  have qsmall: "\<bar>q\<bar> \<le> 1 / 20"
  proof -
    have "of_int \<bar>S\<bar> / of_int N \<le> (2 ^ 48 :: rat) / 2 ^ 53"
      using S48 N53 by (intro frac_le) simp_all
    also have "\<dots> \<le> 1 / 20" by simp
    finally show ?thesis by (simp only: aq)
  qed
  show ?thesis
  proof (cases "S = 0")
    case True
    then have "q = 0" by (simp add: q_def)
    moreover from True have "format_1f (round_f64 (of_int S / N')) = decimal1 False 0"
      by (simp add: round_f64_def format_1f_Finite round_half_even_def)
    ultimately show ?thesis
      unfolding rounds_to_one_decimal_def q_def[symmetric] div by (intro exI[of _ 0]) simp
  next
    case False
    then have S1: "(1::rat) \<le> of_int \<bar>S\<bar>" by simp
    define q' where "q' = of_int S / N'"
    have aq': "\<bar>q'\<bar> = of_int \<bar>S\<bar> / N'" using N'pos by (simp add: q'_def abs_divide)
    have q'lo: "2 powi (- 1022) \<le> \<bar>q'\<bar>"
    proof -
      have "(2::rat) powi (- 1022) \<le> 2 powi (- 64)" by (rule pow2_mono) simp
      also have "\<dots> = 1 / 2 ^ 64" by (simp add: power_int_minus field_simps)
      also have "\<dots> \<le> 1 / N'"
        using N'64 N'pos by (intro divide_left_mono) simp_all
      also have "\<dots> \<le> of_int \<bar>S\<bar> / N'"
        using S1 N'pos by (intro divide_right_mono) simp_all
      finally show ?thesis by (simp only: aq')
    qed
    have q'up: "\<bar>q'\<bar> < 1 / 24"
    proof -
      have "of_int \<bar>S\<bar> / N' < (2 ^ 48 :: rat) / (3 * 2 ^ 51)"
        using S48 N'big by (intro frac_less) simp_all
      also have "\<dots> = 1 / 24" by simp
      finally show ?thesis by (simp only: aq')
    qed
    have q'hi: "\<bar>q'\<bar> < 2 powi 1023"
    proof -
      have "\<bar>q'\<bar> < 2 powi 0" using q'up by simp
      also have "(2::rat) powi 0 \<le> 2 powi 1023" by (rule pow2_mono) simp
      finally show ?thesis .
    qed
    from round_f64_error[OF q'lo q'hi] obtain v where v: "round_f64 q' = Finite v"
      and err: "\<bar>v - q'\<bar> \<le> \<bar>q'\<bar> * 2 powi (- 53)"
      and sg: "0 < q' \<longrightarrow> 0 < v" "q' < 0 \<longrightarrow> v < 0" by blast
    have "\<bar>q'\<bar> * 2 powi (- 53) \<le> \<bar>q'\<bar> / 8"
      by (simp add: tiny field_simps)
    with err have "\<bar>v - q'\<bar> \<le> \<bar>q'\<bar> / 8" by linarith
    then have "\<bar>v\<bar> \<le> \<bar>q'\<bar> * (9 / 8)" by linarith
    with q'up have vsmall: "\<bar>v\<bar> * 10 < 1 / 2" by linarith
    then have K: "round_half_even (\<bar>v\<bar> * 10) = 0" by (intro round_half_even_small) simp_all
    have "q' < 0 \<longleftrightarrow> S < 0" using N'pos by (simp add: q'_def divide_less_0_iff)
    moreover have "q < 0 \<longleftrightarrow> S < 0" using Npos by (simp add: q_def divide_less_0_iff)
    moreover have "q' \<noteq> 0" using False N'pos by (simp add: q'_def)
    ultimately have sign: "v < 0 \<longleftrightarrow> q < 0" using sg by (cases "0 < q'") auto
    have "format_1f (round_f64 q') = decimal1 (q < 0) 0"
      by (simp add: v format_1f_Finite K sign)
    with qsmall show ?thesis
      unfolding rounds_to_one_decimal_def q_def[symmetric] div q'_def[symmetric]
      by (intro exI[of _ 0]) simp
  qed
qed

lemma mean_to_one_decimal_abs:
  assumes ne: "xs \<noteq> []" and n: "length xs < 2 ^ 63" and s: "abs_sum xs < 2 ^ 48"
  shows "rounds_to_one_decimal (format_1f (np_mean xs)) (exact_mean xs)"
proof -
  define S where "S = sum_list xs"
  define N where "N = int (length xs)"
  have N: "0 < N" "N < 2 ^ 63" using ne n by (simp_all add: N_def)
  have S: "\<bar>S\<bar> < 2 ^ 48" using abs_sum_list_le[of xs] s by (simp add: S_def)
  from s have "abs_sum xs \<le> 2 ^ 53" by simp
  then have sum: "np_sum xs = Finite (of_int S)" unfolding S_def by (rule np_sum_exact_abs)
  have mean: "np_mean xs = f64_div (Finite (of_int S)) (round_f64 (of_int N))"
    by (simp add: np_mean_def sum N_def)
  have q: "exact_mean xs = of_int S / of_int N"
    by (simp add: exact_mean_def S_def N_def)
  show ?thesis
  proof (cases "N \<le> 2 ^ 53")
    case True
    then have "\<bar>N\<bar> \<le> 2 ^ 53" using N(1) by simp
    then have "round_f64 (of_int N) = Finite (of_int N)" by (rule round_f64_int)
    then have "np_mean xs = round_f64 (of_int S / of_int N)"
      using N(1) by (simp add: mean)
    with quotient_to_one_decimal[OF N(1) True S] show ?thesis by (simp add: q)
  next
    case False
    then have "2 ^ 53 < N" by simp
    from huge_count_to_one_decimal[OF this N(2) S] show ?thesis by (simp add: mean q)
  qed
qed

lemma format_1f_half_even: "half_even_rendering x (format_1f x)"
proof (cases x)
  case (Finite v)
  define K where "K = round_half_even (\<bar>v\<bar> * 10)"
  have K0: "0 \<le> K" unfolding K_def by (rule round_half_even_nonneg) simp
  then have k: "(of_nat (nat K) :: rat) = of_int K" by simp
  have near: "\<bar>of_int K - \<bar>v\<bar> * 10\<bar> \<le> 1 / 2"
    unfolding K_def by (rule round_half_even_error)
  have tie: "\<bar>of_int K - \<bar>v\<bar> * 10\<bar> = 1 / 2 \<longrightarrow> even K"
    unfolding K_def using round_half_even_tie by blast
  have "even (nat K) \<longleftrightarrow> even K" using K0 by (simp add: even_nat_iff)
  with near tie k have "\<bar>of_nat (nat K) - 10 * \<bar>v\<bar>\<bar> \<le> 1 / 2
      \<and> (\<bar>of_nat (nat K) - 10 * \<bar>v\<bar>\<bar> = 1 / 2 \<longrightarrow> even (nat K))"
    by (simp add: mult.commute)
  then show ?thesis
    unfolding half_even_rendering_def Finite by (simp add: format_1f_Finite K_def) blast
qed (simp_all add: half_even_rendering_def format_1f_def)

section \<open>Properties of the aggregator\<close>

lemma format_1f_90: "format_1f (Finite 90) = ''90.0''"
  by code_simp

lemma format_1f_tie: "format_1f (Finite (321 / 4)) = ''80.2''"
  by code_simp

lemma half_away_tie: "decimal1 False (nat (round_half_away (10 * (321 / 4)))) = ''80.3''"
  by code_simp

lemma np_mean_scenario_a: "np_mean [80, 100] = Finite 90"
proof -
  have "np_mean [80, 100] = round_f64 (exact_mean [80, 100])"
    by (rule np_mean_round) simp_all
  also have "exact_mean [80, 100] = of_int 90" by (simp add: exact_mean_def)
  also have "round_f64 (of_int 90) = Finite (of_int 90)" by (rule round_f64_int) simp
  finally show ?thesis by simp
qed

lemma np_mean_tie: "np_mean [80, 80, 80, 81] = Finite (321 / 4)"
proof -
  have "np_mean [80, 80, 80, 81] = round_f64 (exact_mean [80, 80, 80, 81])"
    by (rule np_mean_round) simp_all
  also have "exact_mean [80, 80, 80, 81] = of_int 321 * 2 powi (- 2)"
    by (simp add: exact_mean_def power_int_minus)
  also have "round_f64 (of_int 321 * 2 powi (- 2)) = Finite (of_int 321 * 2 powi (- 2))"
    by (rule round_f64_exact) simp_all
  finally show ?thesis by (simp add: power_int_minus)
qed

lemma round_f64_eval:
  assumes lo: "2 powi e \<le> q" and hi: "q < 2 powi (e + 1)"
    and e: "- 1022 \<le> e" "e < 1023"
    and m: "round_half_even (q / 2 powi (e - 52)) = m"
  shows "round_f64 q = Finite (of_int m * 2 powi (e - 52))"
proof -
  have q: "0 < q" using lo by (rule less_le_trans[rotated]) simp
  have il: "ilog2 q = e" using lo hi by (rule ilog2_unique)
  have "(2::rat) powi (- 1022) \<le> 2 powi e" using e(1) by (rule pow2_mono)
  with lo have lo': "2 powi (- 1022) \<le> q" by simp
  have "(2::rat) powi (e + 1) \<le> 2 powi 1023" using e(2) by (intro pow2_mono) simp
  with hi have hi': "q < 2 powi 1023" by simp
  from round_f64_pos_error[OF lo' hi'] obtain v where v: "round_f64_pos q = Finite v" by blast
  have mx: "max (e - 52) (- 1074) = e - 52" using e(1) by simp
  have "round_f64_pos q =
      (if of_int m * 2 powi (e - 52) < (2::rat) powi 1024 then Finite (of_int m * 2 powi (e - 52)) else PInf)"
    by (simp only: round_f64_pos_def il mx m Let_def)
  with v have "round_f64_pos q = Finite (of_int m * 2 powi (e - 52))"
    by (simp split: if_splits)
  with q show ?thesis by (simp add: round_f64_def)
qed

lemma str_nat_inject: "str_nat a = str_nat b \<Longrightarrow> a = b"
proof -
  assume "str_nat a = str_nat b"
  then have "parse_nat (str_nat a) = parse_nat (str_nat b)" by simp
  then show ?thesis by (simp add: parse_nat_str_nat)
qed

lemma digit_char_inject: "a < 10 \<Longrightarrow> b < 10 \<Longrightarrow> digit_char a = digit_char b \<Longrightarrow> a = b"
  using digit_char_value by metis

lemma decimal1_inject:
  assumes "decimal1 neg a = decimal1 neg b"
  shows "a = b"
proof -
  from assms have "str_nat (a div 10) @ [CHR ''.'', digit_char (a mod 10)]
      = str_nat (b div 10) @ [CHR ''.'', digit_char (b mod 10)]"
    by (simp add: decimal1_def)
  then have "str_nat (a div 10) = str_nat (b div 10)" and "digit_char (a mod 10) = digit_char (b mod 10)"
    by simp_all
  then have "a div 10 = b div 10" and "a mod 10 = b mod 10"
    by (simp_all add: str_nat_inject digit_char_inject)
  then show ?thesis by (metis div_mult_mod_eq)
qed

lemma extreme_column:
  "column heart_rate extreme_data = replicate 34953 2147483608 @ replicate 664106 2147483609"
  by (simp add: extreme_data_def column_def sample_row_def)

lemma extreme_exact_mean:
  "exact_mean (column heart_rate extreme_data) = 1501217744188978 / 699059"
  by (simp add: extreme_column exact_mean_def sum_list_replicate)

lemma extreme_rounding:
  "round_half_even (6296563589322807181312 / 699059) = 9007199090953421"
  by code_simp

lemma extreme_bounds:
  "\<forall>x\<in>set (column heart_rate extreme_data). \<bar>x\<bar> \<le> 2 ^ 31"
  "length (column heart_rate extreme_data) \<le> 4194304"
  "column heart_rate extreme_data \<noteq> []"
  by (simp_all add: extreme_column)

lemma digit_chars:
  "digit_char 0 = CHR ''0''" "digit_char 1 = CHR ''1''" "digit_char 2 = CHR ''2''"
  "digit_char 3 = CHR ''3''" "digit_char 4 = CHR ''4''" "digit_char 5 = CHR ''5''"
  "digit_char 6 = CHR ''6''" "digit_char 7 = CHR ''7''" "digit_char 8 = CHR ''8''"
  "digit_char 9 = CHR ''9''" "digit_char (Suc 0) = CHR ''1''"
  by code_simp+

lemma extreme_decimal: "decimal1 False 21474836090 = ''2147483609.0''"
  by (simp add: decimal1_def str_nat.simps digit_chars)

lemma extreme_decimal_exact: "decimal1 False 21474836089 = ''2147483608.9''"
  by (simp add: decimal1_def str_nat.simps digit_chars)

lemma extreme_tenths: "round_half_even (\<bar>9007199090953421 / 4194304\<bar> * 10) = 21474836090"
  by code_simp

lemma extreme_tenths_even: "round_half_even (10 * (1501217744188978 / 699059)) = 21474836089"
  by code_simp

lemma extreme_tenths_away: "round_half_away (10 * (1501217744188978 / 699059)) = 21474836089"
  by code_simp

lemma extreme_format: "format_1f (Finite (9007199090953421 / 4194304)) = ''2147483609.0''"
  by (simp only: format_1f_Finite extreme_tenths) (simp add: extreme_decimal)


lemma extreme_np_mean:
  "np_mean (column heart_rate extreme_data) = Finite (9007199090953421 / 4194304)"
proof -
  have "np_mean (column heart_rate extreme_data) = round_f64 (exact_mean (column heart_rate extreme_data))"
    by (rule np_mean_round) (rule extreme_bounds)+
  also have "\<dots> = round_f64 (1501217744188978 / 699059)" by (simp only: extreme_exact_mean)
  also have "\<dots> = Finite (of_int 9007199090953421 * 2 powi (30 - 52))"
  proof (rule round_f64_eval)
    show "(2::rat) powi 30 \<le> 1501217744188978 / 699059" by simp
    show "(1501217744188978 / 699059 :: rat) < 2 powi (30 + 1)" by simp
    show "- 1022 \<le> (30::int)" by simp
    show "(30::int) < 1023" by simp
    have "(1501217744188978 / 699059 / 2 powi (30 - 52) :: rat) = 6296563589322807181312 / 699059"
      by (simp add: power_int_minus)
    then show "round_half_even (1501217744188978 / 699059 / 2 powi (30 - 52)) = 9007199090953421"
      by (simp only: extreme_rounding)
  qed
  also have "(of_int 9007199090953421 * 2 powi (30 - 52) :: rat) = 9007199090953421 / 4194304"
    by (simp add: power_int_minus)
  finally show ?thesis .
qed

lemma extreme_not_rounded:
  "\<not> rounds_to_one_decimal ''2147483609.0'' (1501217744188978 / 699059)"
proof
  assume "rounds_to_one_decimal ''2147483609.0'' (1501217744188978 / 699059)"
  then obtain k where k: "''2147483609.0'' = decimal1 False k"
      and near: "\<bar>of_nat k / 10 - \<bar>1501217744188978 / 699059 :: rat\<bar>\<bar> \<le> 1 / 20"
    by (auto simp add: rounds_to_one_decimal_def)
  from k have "decimal1 False 21474836090 = decimal1 False k" by (simp only: extreme_decimal)
  then have "k = 21474836090" by (rule decimal1_inject[symmetric])
  with near show False by simp
qed

lemma column_mean_to_one_decimal:
  assumes "rows data \<noteq> []" and "length (rows data) < 2 ^ 63"
    and "abs_sum (column f data) < 2 ^ 48"
  shows "rounds_to_one_decimal (format_1f (np_mean (column f data))) (exact_mean (column f data))"
proof (rule mean_to_one_decimal_abs)
  show "column f data \<noteq> []" using assms(1) by (simp add: column_rows)
  show "length (column f data) < 2 ^ 63" using assms(2) by (simp add: length_column)
  show "abs_sum (column f data) < 2 ^ 48" by (rule assms(3))
qed

lemma calculate_statistics_eq:
  "calculate_statistics data =
     [''avg_heart_rate'' \<mapsto> format_1f (np_mean (column heart_rate data)),
      ''avg_systolic_bp'' \<mapsto> format_1f (np_mean (column blood_pressure_systolic data)),
      ''avg_glucose'' \<mapsto> format_1f (np_mean (column glucose_level data))]"
  by (simp add: calculate_statistics_def)

text \<open>
  Claim C1 (as amended). For every non-empty dataset in which the absolute values of
  each of the three columns sum to less than \<open>2\<^sup>4\<^sup>8\<close> (an array has fewer than \<open>2\<^sup>6\<^sup>3\<close>
  rows), \<^verbatim>\<open>calculate_statistics\<close> returns for heart rate, systolic pressure and glucose
  the arithmetic mean of the column, its sum divided by the number of rows, rounded to
  one decimal place: a string with exactly one digit after the point that lies within
  half a tenth of the exact mean. Two rows with heart rates 80 and 100 give \<^verbatim>\<open>90.0\<close>, and
  one of them counts as a high heart rate.
\<close>

theorem calculate_statistics_means:
  assumes "rows data \<noteq> []" and "length (rows data) < 2 ^ 63"
    and "abs_sum (column heart_rate data) < 2 ^ 48"
    and "abs_sum (column blood_pressure_systolic data) < 2 ^ 48"
    and "abs_sum (column glucose_level data) < 2 ^ 48"
  shows "(\<exists>hr bp gl.
      calculate_statistics data =
        [''avg_heart_rate'' \<mapsto> hr, ''avg_systolic_bp'' \<mapsto> bp, ''avg_glucose'' \<mapsto> gl]
      \<and> rounds_to_one_decimal hr (exact_mean (column heart_rate data))
      \<and> rounds_to_one_decimal bp (exact_mean (column blood_pressure_systolic data))
      \<and> rounds_to_one_decimal gl (exact_mean (column glucose_level data)))
    \<and> (\<forall>r1 r2. sint (heart_rate r1) = 80 \<and> sint (heart_rate r2) = 100 \<longrightarrow>
          calculate_statistics (Array1 [r1, r2]) ''avg_heart_rate'' = Some ''90.0''
          \<and> find_abnormal_readings (Array1 [r1, r2]) ''high_heart_rate'' = Some 1)"
proof (intro conjI allI impI)
  show "\<exists>hr bp gl.
      calculate_statistics data =
        [''avg_heart_rate'' \<mapsto> hr, ''avg_systolic_bp'' \<mapsto> bp, ''avg_glucose'' \<mapsto> gl]
      \<and> rounds_to_one_decimal hr (exact_mean (column heart_rate data))
      \<and> rounds_to_one_decimal bp (exact_mean (column blood_pressure_systolic data))
      \<and> rounds_to_one_decimal gl (exact_mean (column glucose_level data))"
    using calculate_statistics_eq[of data]
      column_mean_to_one_decimal[OF assms(1,2,3)]
      column_mean_to_one_decimal[OF assms(1,2,4)]
      column_mean_to_one_decimal[OF assms(1,2,5)]
    by blast
next
  fix r1 r2 :: reading
  assume "sint (heart_rate r1) = 80 \<and> sint (heart_rate r2) = 100"
  then have c: "column heart_rate (Array1 [r1, r2]) = [80, 100]" by (simp add: column_def)
  then show "calculate_statistics (Array1 [r1, r2]) ''avg_heart_rate'' = Some ''90.0''"
    by (simp add: calculate_statistics_lookup np_mean_scenario_a format_1f_90)
  show "find_abnormal_readings (Array1 [r1, r2]) ''high_heart_rate'' = Some 1"
    by (simp add: find_abnormal_readings_def c np_greater_def np_sum_bool_def)
qed

theorem calculate_statistics_means_witness:
  "rows (Array1 [sample_row 80 130 110, sample_row 100 120 100]) \<noteq> []
   \<and> length (rows (Array1 [sample_row 80 130 110, sample_row 100 120 100])) < 2 ^ 63
   \<and> abs_sum (column heart_rate (Array1 [sample_row 80 130 110, sample_row 100 120 100])) < 2 ^ 48
   \<and> abs_sum (column blood_pressure_systolic (Array1 [sample_row 80 130 110, sample_row 100 120 100])) < 2 ^ 48
   \<and> abs_sum (column glucose_level (Array1 [sample_row 80 130 110, sample_row 100 120 100])) < 2 ^ 48
   \<and> sint (heart_rate (sample_row 80 130 110)) = 80
   \<and> sint (heart_rate (sample_row 100 120 100)) = 100
   \<and> calculate_statistics (Array1 [sample_row 80 130 110, sample_row 100 120 100]) ''avg_heart_rate''
       = Some ''90.0''
   \<and> (\<exists>bp. calculate_statistics (Array1 [sample_row 80 130 110, sample_row 100 120 100]) ''avg_systolic_bp''
         = Some bp \<and> rounds_to_one_decimal bp 125)"
proof -
  let ?d = "Array1 [sample_row 80 130 110, sample_row 100 120 100]"
  have ne: "rows ?d \<noteq> []" by (simp add: rows_def)
  have n: "length (rows ?d) < 2 ^ 63" by (simp add: rows_def)
  have s: "abs_sum (column heart_rate ?d) < 2 ^ 48"
    "abs_sum (column blood_pressure_systolic ?d) < 2 ^ 48"
    "abs_sum (column glucose_level ?d) < 2 ^ 48"
    by (simp_all add: abs_sum_def column_def sample_row_def)
  have h: "sint (heart_rate (sample_row 80 130 110)) = 80" "sint (heart_rate (sample_row 100 120 100)) = 100"
    by (simp_all add: sample_row_def)
  have m: "exact_mean (column blood_pressure_systolic ?d) = 125"
    by (simp add: exact_mean_def column_def sample_row_def)
  note t = calculate_statistics_means[OF ne n s]
  from t h have a: "calculate_statistics ?d ''avg_heart_rate'' = Some ''90.0''" by blast
  from t obtain hr bp gl where
    "calculate_statistics ?d = [''avg_heart_rate'' \<mapsto> hr, ''avg_systolic_bp'' \<mapsto> bp, ''avg_glucose'' \<mapsto> gl]"
    "rounds_to_one_decimal bp (exact_mean (column blood_pressure_systolic ?d))" by blast
  then have "calculate_statistics ?d ''avg_systolic_bp'' = Some bp \<and> rounds_to_one_decimal bp 125"
    by (simp add: m)
  then have b: "\<exists>bp. calculate_statistics ?d ''avg_systolic_bp'' = Some bp \<and> rounds_to_one_decimal bp 125"
    by blast
  from ne n s h a b show ?thesis by blast
qed

text \<open>
  Beyond that size the binary64 mean can fall on the other side of a rounding boundary
  than the exact mean: for \<open>extreme_data\<close> the exact mean is just below 2147483608.95,
  yet the string is \<^verbatim>\<open>2147483609.0\<close>.
\<close>

theorem calculate_statistics_means_counterexample:
  "rows extreme_data \<noteq> []
   \<and> length (rows extreme_data) = 699059
   \<and> abs_sum (column heart_rate extreme_data) = 1501217744188978
   \<and> exact_mean (column heart_rate extreme_data) = 1501217744188978 / 699059
   \<and> calculate_statistics extreme_data ''avg_heart_rate'' = Some ''2147483609.0''
   \<and> decimal1 False (nat (round_half_even (10 * (1501217744188978 / 699059)))) = ''2147483608.9''
   \<and> decimal1 False (nat (round_half_away (10 * (1501217744188978 / 699059)))) = ''2147483608.9''
   \<and> \<not> rounds_to_one_decimal ''2147483609.0'' (exact_mean (column heart_rate extreme_data))"
proof (intro conjI)
  show "rows extreme_data \<noteq> []" by (simp add: rows_def extreme_data_def)
  show "length (rows extreme_data) = 699059" by (simp add: rows_def extreme_data_def)
  show "abs_sum (column heart_rate extreme_data) = 1501217744188978"
    by (simp add: abs_sum_def extreme_column sum_list_replicate)
  show "exact_mean (column heart_rate extreme_data) = 1501217744188978 / 699059"
    by (rule extreme_exact_mean)
  show "calculate_statistics extreme_data ''avg_heart_rate'' = Some ''2147483609.0''"
    by (simp only: calculate_statistics_lookup extreme_np_mean extreme_format)
  show "decimal1 False (nat (round_half_even (10 * (1501217744188978 / 699059)))) = ''2147483608.9''"
    by (simp only: extreme_tenths_even) (simp add: extreme_decimal_exact)
  show "decimal1 False (nat (round_half_away (10 * (1501217744188978 / 699059)))) = ''2147483608.9''"
    by (simp only: extreme_tenths_away) (simp add: extreme_decimal_exact)
  show "\<not> rounds_to_one_decimal ''2147483609.0'' (exact_mean (column heart_rate extreme_data))"
    by (simp only: extreme_exact_mean extreme_not_rounded not_False_eq_True)
qed

text \<open>
  Claim C10. Each of the three strings renders the binary64 mean itself to one decimal
  place, half to even: heart rates 80, 80, 80 and 81 have the mean 80.25, an exact tie,
  and give \<^verbatim>\<open>80.2\<close>, where rounding half away from zero would give \<^verbatim>\<open>80.3\<close>.
\<close>

theorem means_round_half_even:
  "(\<exists>hr bp gl.
      calculate_statistics data =
        [''avg_heart_rate'' \<mapsto> hr, ''avg_systolic_bp'' \<mapsto> bp, ''avg_glucose'' \<mapsto> gl]
      \<and> half_even_rendering (np_mean (column heart_rate data)) hr
      \<and> half_even_rendering (np_mean (column blood_pressure_systolic data)) bp
      \<and> half_even_rendering (np_mean (column glucose_level data)) gl)
   \<and> (\<forall>r1 r2 r3 r4.
        sint (heart_rate r1) = 80 \<and> sint (heart_rate r2) = 80 \<and> sint (heart_rate r3) = 80
        \<and> sint (heart_rate r4) = 81 \<longrightarrow>
          np_mean (column heart_rate (Array1 [r1, r2, r3, r4])) = Finite (321 / 4)
          \<and> calculate_statistics (Array1 [r1, r2, r3, r4]) ''avg_heart_rate'' = Some ''80.2'')
   \<and> decimal1 False (nat (round_half_away (10 * (321 / 4)))) = ''80.3''"
proof (intro conjI allI impI)
  show "\<exists>hr bp gl.
      calculate_statistics data =
        [''avg_heart_rate'' \<mapsto> hr, ''avg_systolic_bp'' \<mapsto> bp, ''avg_glucose'' \<mapsto> gl]
      \<and> half_even_rendering (np_mean (column heart_rate data)) hr
      \<and> half_even_rendering (np_mean (column blood_pressure_systolic data)) bp
      \<and> half_even_rendering (np_mean (column glucose_level data)) gl"
    using calculate_statistics_eq[of data] format_1f_half_even by blast
next
  fix r1 r2 r3 r4 :: reading
  assume h: "sint (heart_rate r1) = 80 \<and> sint (heart_rate r2) = 80 \<and> sint (heart_rate r3) = 80
        \<and> sint (heart_rate r4) = 81"
  then have c: "column heart_rate (Array1 [r1, r2, r3, r4]) = [80, 80, 80, 81]"
    by (simp add: column_def)
  show "np_mean (column heart_rate (Array1 [r1, r2, r3, r4])) = Finite (321 / 4)"
    by (simp only: c np_mean_tie)
  show "calculate_statistics (Array1 [r1, r2, r3, r4]) ''avg_heart_rate'' = Some ''80.2''"
    by (simp only: calculate_statistics_lookup c np_mean_tie format_1f_tie)
next
  show "decimal1 False (nat (round_half_away (10 * (321 / 4)))) = ''80.3''"
    by (rule half_away_tie)
qed

theorem means_round_half_even_witness:
  "sint (heart_rate (sample_row 80 130 110)) = 80 \<and> sint (heart_rate (sample_row 81 130 110)) = 81
   \<and> calculate_statistics
        (Array1 [sample_row 80 130 110, sample_row 80 130 110, sample_row 80 130 110, sample_row 81 130 110])
        ''avg_heart_rate'' = Some ''80.2''"
proof -
  have h: "sint (heart_rate (sample_row 80 130 110)) = 80" "sint (heart_rate (sample_row 81 130 110)) = 81"
    by (simp_all add: sample_row_def)
  from means_round_half_even[of "Array1 []"] h
  have "calculate_statistics
        (Array1 [sample_row 80 130 110, sample_row 80 130 110, sample_row 80 130 110, sample_row 81 130 110])
        ''avg_heart_rate'' = Some ''80.2''" by blast
  with h show ?thesis by blast
qed

end
